theory Spec2Isabelle
  imports Main "HOL-Library.Word"
begin

section \<open>The matching bot of main.go: data model\<close>

text \<open>
  User identities are Go \<open>int64\<close> values; the program only stores and compares them, and
  reads \<open>0\<close> as "no partner".  \<open>UserGender\<close> is a Go string type with the two constants
  \<open>Male\<close> and \<open>Female\<close>; the empty string is the zero value of a fresh \<open>UserState\<close>.
\<close>

type_synonym int64 = "64 word"

type_synonym UserGender = string

definition Male :: UserGender where
  "Male = ''male''"

definition Female :: UserGender where
  "Female = ''female''"

record UserState =
  Gender :: UserGender
  Partner :: int64
  Waiting :: bool

text \<open>
  The \<open>Bot\<close> struct without its transport handle \<open>api\<close> and its mutex \<open>mu\<close>: \<open>Run\<close> handles
  one update at a time in a single goroutine, so every handler runs to completion before
  the next one starts.  \<open>users\<close> is \<open>map[int64]*UserState\<close>; every key owns its own
  \<open>UserState\<close> cell, so a write through the pointer stored under a key is an update of the
  map at that key.
\<close>

record Bot =
  users :: "int64 \<rightharpoonup> UserState"
  maleQueue :: "int64 list"
  femaleQueue :: "int64 list"

text \<open>
  The texts the bot sends are string literals of the source (Russian, with emoji); each
  literal is named by one constructor.  \<open>UserText\<close> carries a text that came from a user.
\<close>

datatype msgText =
    Welcome
  | GenderChosen UserGender
  | ChooseGenderFirst
  | AlreadyInChat
  | Searching
  | PartnerFound
  | NotInChat
  | ChatEnded
  | PartnerEnded
  | NotInChatHint
  | UserText string

text \<open>
  What a handler asks of the transport: \<open>sendMessage\<close> (and the two sends with an inline
  keyboard) is \<open>SendMessage\<close>; \<open>handleCallback\<close> also answers the callback query and deletes
  the message that carried the keyboard.
\<close>

datatype request =
    SendMessage int64 msgText
  | AnswerCallback
  | DeleteMessage int64

text \<open>
  An update of the feed, as \<open>Run\<close> tells them apart: a callback query (sender, data), a
  message (sender, text), or an update with neither.
\<close>

datatype update =
    CallbackQuery int64 string
  | Message int64 string
  | Other

text \<open>
  A handler maps the bot state to the new state and the requests it issued, in order.
  \<open>None\<close> is a Go panic: a field access through the nil pointer that a lookup of an
  absent key returns.
\<close>

type_synonym result = "(Bot \<times> request list) option"

definition NewBot :: Bot where
  "NewBot = \<lparr>users = Map.empty, maleQueue = [], femaleQueue = []\<rparr>"

definition zeroState :: UserState where
  "zeroState = \<lparr>Gender = [], Partner = 0, Waiting = False\<rparr>"

text \<open>The lookup-or-insert that \<open>Run\<close> and \<open>handleCallback\<close> do before they dispatch.\<close>

definition getOrCreate :: "int64 \<Rightarrow> Bot \<Rightarrow> Bot" where
  "getOrCreate userID b =
     (case users b userID of
        None \<Rightarrow> b\<lparr>users := (users b)(userID \<mapsto> zeroState)\<rparr>
      | Some state \<Rightarrow> b)"

text \<open>
  A field write through the pointer stored under \<open>userID\<close>.  The handlers call it only
  after they have found that the pointer is not nil.
\<close>

definition modify :: "int64 \<Rightarrow> (UserState \<Rightarrow> UserState) \<Rightarrow> Bot \<Rightarrow> Bot" where
  "modify userID f b =
     (case users b userID of
        None \<Rightarrow> b
      | Some state \<Rightarrow> b\<lparr>users := (users b)(userID \<mapsto> f state)\<rparr>)"

section \<open>The handlers\<close>

definition handleStart :: "int64 \<Rightarrow> Bot \<Rightarrow> result" where
  "handleStart userID b = Some (b, [SendMessage userID Welcome])"

definition setGender :: "int64 \<Rightarrow> UserGender \<Rightarrow> Bot \<Rightarrow> result" where
  "setGender userID gender b =
     (case users b userID of
        None \<Rightarrow> None
      | Some state \<Rightarrow>
          Some (modify userID (\<lambda>s. s\<lparr>Gender := gender\<rparr>) b,
                [SendMessage userID (GenderChosen gender)]))"

text \<open>
  One iteration of the loop of \<open>matchUsers\<close>: both heads are taken off their queues, then
  the four field writes happen in the order of the source.
\<close>

definition pairHeads :: "Bot \<Rightarrow> Bot" where
  "pairHeads b =
     (let maleID = hd (maleQueue b);
          femaleID = hd (femaleQueue b);
          b1 = b\<lparr>maleQueue := tl (maleQueue b), femaleQueue := tl (femaleQueue b)\<rparr>;
          b2 = modify maleID (\<lambda>s. s\<lparr>Partner := femaleID\<rparr>) b1;
          b3 = modify femaleID (\<lambda>s. s\<lparr>Partner := maleID\<rparr>) b2;
          b4 = modify maleID (\<lambda>s. s\<lparr>Waiting := False\<rparr>) b3
      in modify femaleID (\<lambda>s. s\<lparr>Waiting := False\<rparr>) b4)"

function matchUsers :: "Bot \<Rightarrow> result" where
  "matchUsers b =
     (if maleQueue b \<noteq> [] \<and> femaleQueue b \<noteq> [] then
        (if users b (hd (maleQueue b)) = None \<or> users b (hd (femaleQueue b)) = None
         then None
         else (case matchUsers (pairHeads b) of
                 None \<Rightarrow> None
               | Some (b', out) \<Rightarrow>
                   Some (b', SendMessage (hd (maleQueue b)) PartnerFound
                           # SendMessage (hd (femaleQueue b)) PartnerFound # out)))
      else Some (b, []))"
  by pat_completeness auto
termination
  by (relation "measure (\<lambda>b. length (maleQueue b))")
     (auto simp: pairHeads_def modify_def Let_def split: option.splits)

declare matchUsers.simps [simp del]

definition startChat :: "int64 \<Rightarrow> Bot \<Rightarrow> result" where
  "startChat userID b =
     (case users b userID of
        None \<Rightarrow> None
      | Some state \<Rightarrow>
          if Gender state = [] then Some (b, [SendMessage userID ChooseGenderFirst])
          else if Partner state \<noteq> 0 then Some (b, [SendMessage userID AlreadyInChat])
          else
            (let b1 = modify userID (\<lambda>s. s\<lparr>Waiting := True\<rparr>) b;
                 b2 = (if Gender state = Male
                       then b1\<lparr>maleQueue := maleQueue b1 @ [userID]\<rparr>
                       else b1\<lparr>femaleQueue := femaleQueue b1 @ [userID]\<rparr>)
             in case matchUsers b2 of
                  None \<Rightarrow> None
                | Some (b3, out) \<Rightarrow> Some (b3, SendMessage userID Searching # out)))"

text \<open>
  The scan of \<open>removeFromQueue\<close> over one queue: the first entry equal to \<open>userID\<close> is cut
  out and the scan stops (\<open>Some\<close> of the new queue); \<open>None\<close> when no entry is equal.
\<close>

fun removeFirst :: "int64 \<Rightarrow> int64 list \<Rightarrow> int64 list option" where
  "removeFirst userID [] = None"
| "removeFirst userID (x # xs) =
     (if x = userID then Some xs else map_option (Cons x) (removeFirst userID xs))"

definition removeFromQueue :: "int64 \<Rightarrow> Bot \<Rightarrow> Bot" where
  "removeFromQueue userID b =
     (case removeFirst userID (maleQueue b) of
        Some q \<Rightarrow> b\<lparr>maleQueue := q\<rparr>
      | None \<Rightarrow>
          (case removeFirst userID (femaleQueue b) of
             Some q \<Rightarrow> b\<lparr>femaleQueue := q\<rparr>
           | None \<Rightarrow> b))"

definition stopChat :: "int64 \<Rightarrow> Bot \<Rightarrow> result" where
  "stopChat userID b =
     (case users b userID of
        None \<Rightarrow> None
      | Some state \<Rightarrow>
          if Partner state = 0 then Some (b, [SendMessage userID NotInChat])
          else
            (let partnerID = Partner state in
             case users b partnerID of
               None \<Rightarrow> None
             | Some partnerState \<Rightarrow>
                 (let b1 = modify userID (\<lambda>s. s\<lparr>Partner := 0\<rparr>) b;
                      b2 = modify partnerID (\<lambda>s. s\<lparr>Partner := 0\<rparr>) b1;
                      b3 = removeFromQueue userID b2;
                      b4 = removeFromQueue partnerID b3
                  in Some (b4, [SendMessage userID ChatEnded,
                                SendMessage partnerID PartnerEnded]))))"

definition nextPartner :: "int64 \<Rightarrow> Bot \<Rightarrow> result" where
  "nextPartner userID b =
     (case stopChat userID b of
        None \<Rightarrow> None
      | Some (b1, out1) \<Rightarrow>
          (case startChat userID b1 of
             None \<Rightarrow> None
           | Some (b2, out2) \<Rightarrow> Some (b2, out1 @ out2)))"

definition forwardMessage :: "int64 \<Rightarrow> string \<Rightarrow> Bot \<Rightarrow> result" where
  "forwardMessage userID txt b =
     (case users b userID of
        None \<Rightarrow> None
      | Some state \<Rightarrow>
          (let partnerID = Partner state in
           if partnerID \<noteq> 0 then Some (b, [SendMessage partnerID (UserText txt)])
           else Some (b, [SendMessage userID NotInChatHint])))"

definition handleCallback :: "int64 \<Rightarrow> string \<Rightarrow> Bot \<Rightarrow> result" where
  "handleCallback userID data b =
     (let b0 = getOrCreate userID b;
          r = (if data = ''gender_male'' then setGender userID Male b0
               else if data = ''gender_female'' then setGender userID Female b0
               else if data = ''start_chat'' then startChat userID b0
               else Some (b0, []))
      in case r of
           None \<Rightarrow> None
         | Some (b1, out) \<Rightarrow> Some (b1, out @ [AnswerCallback, DeleteMessage userID]))"

text \<open>The body of the loop of \<open>Run\<close>, for one update.\<close>

definition handleUpdate :: "update \<Rightarrow> Bot \<Rightarrow> result" where
  "handleUpdate u b =
     (case u of
        CallbackQuery userID data \<Rightarrow> handleCallback userID data b
      | Other \<Rightarrow> Some (b, [])
      | Message userID txt \<Rightarrow>
          (let b0 = getOrCreate userID b in
           if txt = ''/start'' then handleStart userID b0
           else if txt = ''/stop'' then stopChat userID b0
           else if txt = ''/next'' then nextPartner userID b0
           else forwardMessage userID txt b0))"

text \<open>\<open>Run\<close> on a finite prefix of the feed; a panic ends the process.\<close>

fun Run :: "update list \<Rightarrow> Bot \<Rightarrow> result" where
  "Run [] b = Some (b, [])"
| "Run (u # us) b =
     (case handleUpdate u b of
        None \<Rightarrow> None
      | Some (b1, out1) \<Rightarrow>
          (case Run us b1 of
             None \<Rightarrow> None
           | Some (b2, out2) \<Rightarrow> Some (b2, out1 @ out2)))"

text \<open>
  The states the bot can be in: the initial one, and every state a handled update leaves
  behind.  A run of the matching loop on its own is a step too.
\<close>

inductive reachable :: "Bot \<Rightarrow> bool" where
  init: "reachable NewBot"
| step: "reachable b \<Longrightarrow> handleUpdate u b = Some (b', out) \<Longrightarrow> reachable b'"
| match: "reachable b \<Longrightarrow> matchUsers b = Some (b', out) \<Longrightarrow> reachable b'"

section \<open>Observations and invariants\<close>

text \<open>The partner field and the waiting flag of a user, when the user has a state.\<close>

definition partnerOf :: "Bot \<Rightarrow> int64 \<Rightarrow> int64 option" where
  "partnerOf b u = map_option Partner (users b u)"

definition waitingOf :: "Bot \<Rightarrow> int64 \<Rightarrow> bool option" where
  "waitingOf b u = map_option Waiting (users b u)"

text \<open>The state \<open>Run\<close> leaves behind from the initial state (the initial state after a panic).\<close>

definition stateAfter :: "update list \<Rightarrow> Bot" where
  "stateAfter us = (case Run us NewBot of None \<Rightarrow> NewBot | Some (b, out) \<Rightarrow> b)"

text \<open>No user is waiting and paired at once.\<close>

definition exclusive :: "Bot \<Rightarrow> bool" where
  "exclusive b \<longleftrightarrow> (\<forall>u s. users b u = Some s \<longrightarrow> Waiting s \<longrightarrow> Partner s = 0)"

text \<open>
  Users 1 and 2 choose male and start, then user 3 chooses female and starts: 1 and 3 chat,
  2 waits.
\<close>

definition oneWaitsTwoChat :: "update list" where
  "oneWaitsTwoChat =
     [CallbackQuery 1 ''gender_male'', CallbackQuery 1 ''start_chat'',
      CallbackQuery 2 ''gender_male'', CallbackQuery 2 ''start_chat'',
      CallbackQuery 3 ''gender_female'', CallbackQuery 3 ''start_chat'']"

text \<open>
  Every queued identity has a user state with a gender, and every partner field other than
  0 belongs to a user with a gender and names a user that has a state.
\<close>

definition registered :: "Bot \<Rightarrow> bool" where
  "registered b \<longleftrightarrow>
     (\<forall>u \<in> set (maleQueue b) \<union> set (femaleQueue b). \<exists>s. users b u = Some s \<and> Gender s \<noteq> []) \<and>
     (\<forall>u s. users b u = Some s \<longrightarrow> Partner s \<noteq> 0 \<longrightarrow>
        Gender s \<noteq> [] \<and> users b (Partner s) \<noteq> None)"

text \<open>
  User 1 chooses male and user 2 chooses female; each starts, so they chat with each other.
\<close>

definition pairOneTwo :: "update list" where
  "pairOneTwo =
     [CallbackQuery 1 ''gender_male'', CallbackQuery 1 ''start_chat'',
      CallbackQuery 2 ''gender_female'', CallbackQuery 2 ''start_chat'']"

text \<open>User 1 has chosen male and has not started.\<close>

definition maleIdle :: "update list" where
  "maleIdle = [CallbackQuery 1 ''gender_male'']"

text \<open>User 1 has chosen male and started; nobody else is there.\<close>

definition maleWaiting :: "update list" where
  "maleWaiting = [CallbackQuery 1 ''gender_male'', CallbackQuery 1 ''start_chat'']"

text \<open>
  The queue \<open>startChat\<close> appends a user to: \<open>maleQueue\<close> when the gender of the user is
  \<open>Male\<close> (the flag is true), \<open>femaleQueue\<close> otherwise.
\<close>

definition queueOf :: "bool \<Rightarrow> Bot \<Rightarrow> int64 list" where
  "queueOf male b = (if male then maleQueue b else femaleQueue b)"

text \<open>The users of a list press "start chat", one after the other.\<close>

definition starts :: "int64 list \<Rightarrow> update list" where
  "starts fs = map (\<lambda>f. CallbackQuery f ''start_chat'') fs"

text \<open>
  Users 1, 2, 3 choose male and start, in this order; users 4, 5, 6 choose female and have
  not started yet.
\<close>

definition threeMenWait :: "update list" where
  "threeMenWait =
     [CallbackQuery 1 ''gender_male'', CallbackQuery 1 ''start_chat'',
      CallbackQuery 2 ''gender_male'', CallbackQuery 2 ''start_chat'',
      CallbackQuery 3 ''gender_male'', CallbackQuery 3 ''start_chat'',
      CallbackQuery 4 ''gender_female'', CallbackQuery 5 ''gender_female'',
      CallbackQuery 6 ''gender_female'']"

text \<open>
  A state in which user 1 chats with user 2 and is still at the head of \<open>maleQueue\<close>, while
  user 3 waits in \<open>femaleQueue\<close>.  It is the state inside the last \<open>startChat\<close> of
  \<open>requeuedThenTwoWomen\<close> below, just before \<open>matchUsers\<close> runs.
\<close>

definition stalePair :: Bot where
  "stalePair =
     \<lparr>users = [1 \<mapsto> \<lparr>Gender = Male, Partner = 2, Waiting = False\<rparr>,
               2 \<mapsto> \<lparr>Gender = Female, Partner = 1, Waiting = False\<rparr>,
               3 \<mapsto> \<lparr>Gender = Female, Partner = 0, Waiting = True\<rparr>],
      maleQueue = [1], femaleQueue = [3]\<rparr>"

text \<open>User 1 chooses male and presses "start chat" twice.\<close>

definition startTwice :: "update list" where
  "startTwice =
     [CallbackQuery 1 ''gender_male'', CallbackQuery 1 ''start_chat'',
      CallbackQuery 1 ''start_chat'']"

text \<open>User 1 chooses male, presses "start chat" and then sends \<open>/next\<close>.\<close>

definition nextWhileWaiting :: "update list" where
  "nextWhileWaiting =
     [CallbackQuery 1 ''gender_male'', CallbackQuery 1 ''start_chat'', Message 1 ''/next'']"

text \<open>
  After \<open>nextWhileWaiting\<close>, users 2 and 3 choose female and start, one after the other.
\<close>

definition requeuedThenTwoWomen :: "update list" where
  "requeuedThenTwoWomen =
     nextWhileWaiting @
     [CallbackQuery 2 ''gender_female'', CallbackQuery 2 ''start_chat'',
      CallbackQuery 3 ''gender_female'', CallbackQuery 3 ''start_chat'']"

text \<open>The partner field of a user in the state a handler returns.\<close>

definition partnerAfter :: "result \<Rightarrow> int64 \<Rightarrow> int64 option" where
  "partnerAfter r u = (case r of None \<Rightarrow> None | Some (b, out) \<Rightarrow> partnerOf b u)"

text \<open>
  User 1 (male) and user 2 (female) both wait at the head of their queue: the state inside
  the \<open>startChat\<close> of user 2, just before \<open>matchUsers\<close> runs.
\<close>

definition readyPair :: Bot where
  "readyPair =
     \<lparr>users = [1 \<mapsto> \<lparr>Gender = Male, Partner = 0, Waiting = True\<rparr>,
               2 \<mapsto> \<lparr>Gender = Female, Partner = 0, Waiting = True\<rparr>],
      maleQueue = [1], femaleQueue = [2]\<rparr>"

text \<open>User 1 has sent \<open>/start\<close> and has not chosen a gender.\<close>

definition noGender :: "update list" where
  "noGender = [Message 1 ''/start'']"

text \<open>
  After \<open>requeuedThenTwoWomen\<close> user 3 stops, user 1 starts again and user 2 chooses male:
  the partner field of user 2 still names user 1, who has no partner and waits in
  \<open>maleQueue\<close>; \<open>femaleQueue\<close> is empty.
\<close>

definition stalePartnerWaits :: "update list" where
  "stalePartnerWaits =
     requeuedThenTwoWomen @
     [Message 3 ''/stop'', CallbackQuery 1 ''start_chat'', CallbackQuery 2 ''gender_male'']"

text \<open>After \<open>pairOneTwo\<close> user 3 chooses female and starts: 1 and 2 chat, 3 waits.\<close>

definition pairWithCandidate :: "update list" where
  "pairWithCandidate =
     pairOneTwo @ [CallbackQuery 3 ''gender_female'', CallbackQuery 3 ''start_chat'']"

text \<open>At most one of the two queues holds anybody.\<close>

definition oneSided :: "Bot \<Rightarrow> bool" where
  "oneSided b \<longleftrightarrow> maleQueue b = [] \<or> femaleQueue b = []"

section \<open>Basic facts about the handlers\<close>

lemma users_modify [simp]:
  "users (modify u f b) k = (if k = u then map_option f (users b k) else users b k)"
  by (simp add: modify_def split: option.splits)

lemma maleQueue_modify [simp]: "maleQueue (modify u f b) = maleQueue b"
  by (simp add: modify_def split: option.splits)

lemma femaleQueue_modify [simp]: "femaleQueue (modify u f b) = femaleQueue b"
  by (simp add: modify_def split: option.splits)

lemma maleQueue_pairHeads [simp]: "maleQueue (pairHeads b) = tl (maleQueue b)"
  by (simp add: pairHeads_def Let_def)

lemma femaleQueue_pairHeads [simp]: "femaleQueue (pairHeads b) = tl (femaleQueue b)"
  by (simp add: pairHeads_def Let_def)

lemma users_pairHeads:
  "users (pairHeads b) k =
     (if k = hd (femaleQueue b)
      then map_option (\<lambda>s. s\<lparr>Partner := hd (maleQueue b), Waiting := False\<rparr>) (users b k)
      else if k = hd (maleQueue b)
      then map_option (\<lambda>s. s\<lparr>Partner := hd (femaleQueue b), Waiting := False\<rparr>) (users b k)
      else users b k)"
  by (simp add: pairHeads_def Let_def option.map_comp comp_def)

lemma matchUsers_empty:
  "maleQueue b = [] \<or> femaleQueue b = [] \<Longrightarrow> matchUsers b = Some (b, [])"
  by (subst matchUsers.simps) auto

lemma matchUsers_step:
  assumes "maleQueue b \<noteq> []" "femaleQueue b \<noteq> []"
    and "users b (hd (maleQueue b)) \<noteq> None" "users b (hd (femaleQueue b)) \<noteq> None"
  shows "matchUsers b =
           map_option (\<lambda>(b', out). (b', SendMessage (hd (maleQueue b)) PartnerFound
                                     # SendMessage (hd (femaleQueue b)) PartnerFound # out))
             (matchUsers (pairHeads b))"
  using assms by (subst matchUsers.simps) (auto split: option.splits)

lemma matchUsers_invariant:
  assumes pres: "\<And>b. P b \<Longrightarrow> maleQueue b \<noteq> [] \<Longrightarrow> femaleQueue b \<noteq> [] \<Longrightarrow>
                   users b (hd (maleQueue b)) \<noteq> None \<Longrightarrow>
                   users b (hd (femaleQueue b)) \<noteq> None \<Longrightarrow> P (pairHeads b)"
  shows "P b \<Longrightarrow> matchUsers b = Some (b', out) \<Longrightarrow> P b'"
proof (induction b arbitrary: out rule: matchUsers.induct)
  case (1 b)
  show ?case
  proof (cases "maleQueue b \<noteq> [] \<and> femaleQueue b \<noteq> []")
    case False
    then have "matchUsers b = Some (b, [])" by (auto intro: matchUsers_empty)
    with "1.prems" show ?thesis by simp
  next
    case True
    show ?thesis
    proof (cases "users b (hd (maleQueue b)) = None \<or> users b (hd (femaleQueue b)) = None")
      case True
      with \<open>maleQueue b \<noteq> [] \<and> femaleQueue b \<noteq> []\<close> have "matchUsers b = None"
        by (subst matchUsers.simps) simp
      with "1.prems" show ?thesis by simp
    next
      case False
      with True have reg: "users b (hd (maleQueue b)) \<noteq> None" "users b (hd (femaleQueue b)) \<noteq> None"
        and ne: "maleQueue b \<noteq> []" "femaleQueue b \<noteq> []" by auto
      from matchUsers_step [OF ne reg] "1.prems"(2)
      obtain out' where rec: "matchUsers (pairHeads b) = Some (b', out')"
        by (cases "matchUsers (pairHeads b)") auto
      have "P (pairHeads b)" using pres [OF "1.prems"(1) ne reg] .
      from "1.IH" [OF True False this rec] show ?thesis .
    qed
  qed
qed

lemma matchUsers_fixpoint:
  "matchUsers b = Some (b', out) \<Longrightarrow> maleQueue b' = [] \<or> femaleQueue b' = []"
proof (induction b arbitrary: out rule: matchUsers.induct)
  case (1 b)
  show ?case
  proof (cases "maleQueue b \<noteq> [] \<and> femaleQueue b \<noteq> []")
    case False
    then have "matchUsers b = Some (b, [])" by (auto intro: matchUsers_empty)
    with "1.prems" False show ?thesis by auto
  next
    case True
    show ?thesis
    proof (cases "users b (hd (maleQueue b)) = None \<or> users b (hd (femaleQueue b)) = None")
      case True
      with \<open>maleQueue b \<noteq> [] \<and> femaleQueue b \<noteq> []\<close> have "matchUsers b = None"
        by (subst matchUsers.simps) simp
      with "1.prems" show ?thesis by simp
    next
      case False
      with True have reg: "users b (hd (maleQueue b)) \<noteq> None" "users b (hd (femaleQueue b)) \<noteq> None"
        and ne: "maleQueue b \<noteq> []" "femaleQueue b \<noteq> []" by auto
      from matchUsers_step [OF ne reg] "1.prems"
      obtain out' where rec: "matchUsers (pairHeads b) = Some (b', out')"
        by (cases "matchUsers (pairHeads b)") auto
      from "1.IH" [OF True False rec] show ?thesis .
    qed
  qed
qed

lemma exclusive_pairHeads: "exclusive b \<Longrightarrow> exclusive (pairHeads b)"
  by (auto simp: exclusive_def users_pairHeads split: if_splits)

lemma exclusive_matchUsers:
  "exclusive b \<Longrightarrow> matchUsers b = Some (b', out) \<Longrightarrow> exclusive b'"
  by (rule matchUsers_invariant [where P = exclusive]) (auto intro: exclusive_pairHeads)

lemma exclusive_getOrCreate: "exclusive b \<Longrightarrow> exclusive (getOrCreate u b)"
  by (auto simp: exclusive_def getOrCreate_def zeroState_def split: option.splits if_splits)

lemma exclusive_setGender:
  "exclusive b \<Longrightarrow> setGender u g b = Some (b', out) \<Longrightarrow> exclusive b'"
  by (auto simp: exclusive_def setGender_def split: option.splits if_splits)

lemma exclusive_startChat:
  "exclusive b \<Longrightarrow> startChat u b = Some (b', out) \<Longrightarrow> exclusive b'"
proof -
  assume ex: "exclusive b" and st: "startChat u b = Some (b', out)"
  from st obtain s where s: "users b u = Some s"
    by (auto simp: startChat_def split: option.splits)
  show ?thesis
  proof (cases "Gender s = [] \<or> Partner s \<noteq> 0")
    case True
    with st s have "b' = b" by (auto simp: startChat_def split: if_splits)
    with ex show ?thesis by simp
  next
    case False
    let ?b1 = "modify u (\<lambda>s. s\<lparr>Waiting := True\<rparr>) b"
    let ?b2 = "if Gender s = Male then ?b1\<lparr>maleQueue := maleQueue ?b1 @ [u]\<rparr>
               else ?b1\<lparr>femaleQueue := femaleQueue ?b1 @ [u]\<rparr>"
    from False st s obtain out' where m: "matchUsers ?b2 = Some (b', out')"
      by (auto simp: startChat_def Let_def split: option.splits if_splits)
    have "exclusive ?b2" using ex s False
      by (auto simp: exclusive_def split: if_splits)
    from exclusive_matchUsers [OF this m] show ?thesis .
  qed
qed

lemma users_removeFromQueue [simp]: "users (removeFromQueue u b) = users b"
  by (simp add: removeFromQueue_def split: option.splits)

lemma exclusive_stopChat:
  "exclusive b \<Longrightarrow> stopChat u b = Some (b', out) \<Longrightarrow> exclusive b'"
  by (auto simp: exclusive_def stopChat_def Let_def split: option.splits if_splits)

lemma exclusive_nextPartner:
  assumes "exclusive b" and "nextPartner u b = Some (b', out)"
  shows "exclusive b'"
proof -
  from assms(2) obtain b1 out1 out2 where
    "stopChat u b = Some (b1, out1)" and "startChat u b1 = Some (b', out2)"
    by (auto simp: nextPartner_def split: option.splits)
  with assms(1) show ?thesis
    by (blast intro: exclusive_stopChat exclusive_startChat)
qed

lemma exclusive_forwardMessage:
  "exclusive b \<Longrightarrow> forwardMessage u t b = Some (b', out) \<Longrightarrow> exclusive b'"
  by (auto simp: forwardMessage_def Let_def split: option.splits if_splits)

lemma exclusive_handleCallback:
  assumes "exclusive b" and "handleCallback u d b = Some (b', out)"
  shows "exclusive b'"
proof -
  have ex0: "exclusive (getOrCreate u b)"
    using assms(1) by (rule exclusive_getOrCreate)
  from assms(2) consider
      out' where "setGender u Male (getOrCreate u b) = Some (b', out')"
    | out' where "setGender u Female (getOrCreate u b) = Some (b', out')"
    | out' where "startChat u (getOrCreate u b) = Some (b', out')"
    | "b' = getOrCreate u b"
    by (auto simp: handleCallback_def Let_def split: option.splits if_splits)
  then show ?thesis
    using ex0 by cases (blast intro: exclusive_setGender exclusive_startChat)+
qed

lemma exclusive_handleUpdate:
  assumes "exclusive b" and "handleUpdate u b = Some (b', out)"
  shows "exclusive b'"
proof (cases u)
  case (CallbackQuery userID d)
  with assms show ?thesis
    by (auto simp: handleUpdate_def intro: exclusive_handleCallback)
next
  case Other
  with assms show ?thesis by (simp add: handleUpdate_def)
next
  case (Message userID t)
  have ex0: "exclusive (getOrCreate userID b)"
    using assms(1) by (rule exclusive_getOrCreate)
  from assms(2) Message consider
      "b' = getOrCreate userID b"
    | "stopChat userID (getOrCreate userID b) = Some (b', out)"
    | "nextPartner userID (getOrCreate userID b) = Some (b', out)"
    | "forwardMessage userID t (getOrCreate userID b) = Some (b', out)"
    by (auto simp: handleUpdate_def handleStart_def Let_def split: if_splits)
  then show ?thesis
    using ex0
    by cases (blast intro: exclusive_stopChat exclusive_nextPartner exclusive_forwardMessage)+
qed

lemma exclusive_NewBot: "exclusive NewBot"
  by (simp add: exclusive_def NewBot_def)

lemma reachable_exclusive: "reachable b \<Longrightarrow> exclusive b"
  by (induction rule: reachable.induct)
     (auto intro: exclusive_NewBot exclusive_handleUpdate exclusive_matchUsers)


lemma reachable_Run: "reachable b \<Longrightarrow> Run us b = Some (b', out) \<Longrightarrow> reachable b'"
proof (induction us arbitrary: b out)
  case Nil
  then show ?case by simp
next
  case (Cons u us)
  from Cons.prems(2) obtain b1 out1 out2 where
    h: "handleUpdate u b = Some (b1, out1)" and r: "Run us b1 = Some (b', out2)"
    by (auto split: option.splits)
  from Cons.prems(1) h have "reachable b1" by (rule reachable.step)
  from Cons.IH [OF this r] show ?case .
qed

lemma reachable_stateAfter: "reachable (stateAfter us)"
proof (cases "Run us NewBot")
  case None
  then show ?thesis by (simp add: stateAfter_def reachable.init)
next
  case (Some r)
  obtain b out where "r = (b, out)" by (cases r)
  with Some have "Run us NewBot = Some (b, out)" by simp
  from reachable_Run [OF reachable.init this] this show ?thesis
    by (simp add: stateAfter_def)
qed

section \<open>No handler panics in a reachable state\<close>

lemma removeFirst_subset: "removeFirst u q = Some q' \<Longrightarrow> set q' \<subseteq> set q"
  by (induction q arbitrary: q') (auto split: if_splits)

lemma maleQueue_removeFromQueue: "set (maleQueue (removeFromQueue u b)) \<subseteq> set (maleQueue b)"
  by (auto simp: removeFromQueue_def split: option.splits dest: removeFirst_subset)

lemma femaleQueue_removeFromQueue:
  "set (femaleQueue (removeFromQueue u b)) \<subseteq> set (femaleQueue b)"
  by (auto simp: removeFromQueue_def split: option.splits dest: removeFirst_subset)

lemma registered_NewBot: "registered NewBot"
  by (simp add: registered_def NewBot_def)

lemma registered_getOrCreate:
  assumes "registered b"
  shows "registered (getOrCreate u b)"
proof (cases "users b u")
  case (Some s)
  with assms show ?thesis by (simp add: getOrCreate_def)
next
  case None
  have notq: "u \<notin> set (maleQueue b) \<union> set (femaleQueue b)"
  proof
    assume "u \<in> set (maleQueue b) \<union> set (femaleQueue b)"
    with assms obtain s where "users b u = Some s"
      unfolding registered_def by blast
    with None show False by simp
  qed
  have g: "getOrCreate u b = b\<lparr>users := (users b)(u \<mapsto> zeroState)\<rparr>"
    using None by (simp add: getOrCreate_def)
  show ?thesis
    unfolding g registered_def
  proof (intro conjI ballI allI impI)
    fix v
    assume "v \<in> set (maleQueue (b\<lparr>users := (users b)(u \<mapsto> zeroState)\<rparr>))
              \<union> set (femaleQueue (b\<lparr>users := (users b)(u \<mapsto> zeroState)\<rparr>))"
    then have v: "v \<in> set (maleQueue b) \<union> set (femaleQueue b)" by simp
    with notq have "v \<noteq> u" by blast
    moreover from assms v obtain s where "users b v = Some s" "Gender s \<noteq> []"
      unfolding registered_def by blast
    ultimately show "\<exists>s. users (b\<lparr>users := (users b)(u \<mapsto> zeroState)\<rparr>) v = Some s \<and> Gender s \<noteq> []"
      by simp
  next
    fix v s
    assume v: "users (b\<lparr>users := (users b)(u \<mapsto> zeroState)\<rparr>) v = Some s"
      and p: "Partner s \<noteq> 0"
    then have "v \<noteq> u" by (auto simp: zeroState_def)
    with v have "users b v = Some s" by simp
    with assms p have "Gender s \<noteq> []" "users b (Partner s) \<noteq> None"
      unfolding registered_def by blast+
    then show "Gender s \<noteq> []"
      and "users (b\<lparr>users := (users b)(u \<mapsto> zeroState)\<rparr>) (Partner s) \<noteq> None"
      by simp_all
  qed
qed

lemma users_getOrCreate: "users (getOrCreate u b) u \<noteq> None"
  by (simp add: getOrCreate_def split: option.splits)

lemma registered_setGender:
  "registered b \<Longrightarrow> g \<noteq> [] \<Longrightarrow> setGender u g b = Some (b', out) \<Longrightarrow> registered b'"
  unfolding registered_def setGender_def
  by (cases "users b u") (auto split: if_splits)

lemma registered_pairHeads:
  assumes "registered b" "maleQueue b \<noteq> []" "femaleQueue b \<noteq> []"
  shows "registered (pairHeads b)"
proof -
  from assms obtain m ms f fs where q: "maleQueue b = m # ms" "femaleQueue b = f # fs"
    by (auto simp: neq_Nil_conv)
  from assms(1) q obtain sm sf where
    m: "users b m = Some sm" "Gender sm \<noteq> []" and f: "users b f = Some sf" "Gender sf \<noteq> []"
    unfolding registered_def by fastforce
  show ?thesis
    unfolding registered_def
  proof (intro conjI ballI allI impI)
    fix u assume "u \<in> set (maleQueue (pairHeads b)) \<union> set (femaleQueue (pairHeads b))"
    with q have "u \<in> set (maleQueue b) \<union> set (femaleQueue b)" by auto
    with assms(1) obtain s where "users b u = Some s" "Gender s \<noteq> []"
      unfolding registered_def by blast
    then show "\<exists>s. users (pairHeads b) u = Some s \<and> Gender s \<noteq> []"
      using m f q by (auto simp: users_pairHeads)
  next
    fix u s assume u: "users (pairHeads b) u = Some s" and p: "Partner s \<noteq> 0"
    from u obtain s0 where s0: "users b u = Some s0" "Gender s = Gender s0"
      by (auto simp: users_pairHeads split: if_splits)
    show "Gender s \<noteq> []"
    proof (cases "u = f \<or> u = m")
      case True
      with s0 m f show ?thesis by auto
    next
      case False
      with u q have "users b u = Some s" by (simp add: users_pairHeads)
      with assms(1) p show ?thesis unfolding registered_def by blast
    qed
    have dom: "\<And>k. users b k \<noteq> None \<Longrightarrow> users (pairHeads b) k \<noteq> None"
      by (auto simp: users_pairHeads)
    show "users (pairHeads b) (Partner s) \<noteq> None"
    proof (cases "u = f \<or> u = m")
      case True
      with u q m f have "Partner s = m \<or> Partner s = f"
        by (auto simp: users_pairHeads split: if_splits)
      with m f dom show ?thesis by auto
    next
      case False
      with u q have "users b u = Some s" by (simp add: users_pairHeads)
      with assms(1) p have "users b (Partner s) \<noteq> None" unfolding registered_def by blast
      then show ?thesis by (rule dom)
    qed
  qed
qed

lemma registered_matchUsers:
  "registered b \<Longrightarrow> matchUsers b = Some (b', out) \<Longrightarrow> registered b'"
  by (rule matchUsers_invariant [where P = registered]) (auto intro: registered_pairHeads)

lemma matchUsers_no_panic: "registered b \<Longrightarrow> matchUsers b \<noteq> None"
proof (induction b rule: matchUsers.induct)
  case (1 b)
  show ?case
  proof (cases "maleQueue b \<noteq> [] \<and> femaleQueue b \<noteq> []")
    case False
    then have "matchUsers b = Some (b, [])" by (auto intro: matchUsers_empty)
    then show ?thesis by simp
  next
    case True
    then have ne: "maleQueue b \<noteq> []" "femaleQueue b \<noteq> []" by auto
    then have "hd (maleQueue b) \<in> set (maleQueue b)" "hd (femaleQueue b) \<in> set (femaleQueue b)"
      by simp_all
    with "1.prems" have reg: "users b (hd (maleQueue b)) \<noteq> None"
        "users b (hd (femaleQueue b)) \<noteq> None"
      unfolding registered_def by fastforce+
    then have nn: "\<not> (users b (hd (maleQueue b)) = None \<or> users b (hd (femaleQueue b)) = None)"
      by simp
    have "registered (pairHeads b)" using "1.prems" ne by (rule registered_pairHeads)
    from "1.IH" [OF True nn this] matchUsers_step [OF ne reg] show ?thesis
      by (cases "matchUsers (pairHeads b)") auto
  qed
qed


lemma startChat_no_gender:
  "users b u = Some s \<Longrightarrow> Gender s = [] \<Longrightarrow>
     startChat u b = Some (b, [SendMessage u ChooseGenderFirst])"
  by (simp add: startChat_def)

lemma startChat_paired:
  "users b u = Some s \<Longrightarrow> Gender s \<noteq> [] \<Longrightarrow> Partner s \<noteq> 0 \<Longrightarrow>
     startChat u b = Some (b, [SendMessage u AlreadyInChat])"
  by (simp add: startChat_def)

lemma startChat_enqueue:
  "users b u = Some s \<Longrightarrow> Gender s \<noteq> [] \<Longrightarrow> Partner s = 0 \<Longrightarrow>
     startChat u b =
       map_option (\<lambda>(b', out). (b', SendMessage u Searching # out))
         (matchUsers
            (if Gender s = Male
             then (modify u (\<lambda>s. s\<lparr>Waiting := True\<rparr>) b)\<lparr>maleQueue := maleQueue b @ [u]\<rparr>
             else (modify u (\<lambda>s. s\<lparr>Waiting := True\<rparr>) b)\<lparr>femaleQueue := femaleQueue b @ [u]\<rparr>))"
  by (auto simp: startChat_def Let_def split: option.splits)

lemma registered_enqueue:
  assumes "registered b" "users b u = Some s" "Gender s \<noteq> []"
  shows "registered
           (if Gender s = Male
            then (modify u (\<lambda>s. s\<lparr>Waiting := True\<rparr>) b)\<lparr>maleQueue := maleQueue b @ [u]\<rparr>
            else (modify u (\<lambda>s. s\<lparr>Waiting := True\<rparr>) b)\<lparr>femaleQueue := femaleQueue b @ [u]\<rparr>)"
proof -
  define b1 where "b1 = modify u (\<lambda>s. s\<lparr>Waiting := True\<rparr>) b"
  have us: "users b1 v = (if v = u then Some (s\<lparr>Waiting := True\<rparr>) else users b v)" for v
    using assms(2) by (simp add: b1_def)
  have q: "\<exists>t. users b1 v = Some t \<and> Gender t \<noteq> []"
    if "v \<in> set (maleQueue b) \<union> set (femaleQueue b) \<or> v = u" for v
  proof (cases "v = u")
    case True
    with assms(3) show ?thesis by (simp add: us)
  next
    case False
    with that have "v \<in> set (maleQueue b) \<union> set (femaleQueue b)" by simp
    with assms(1) obtain t where "users b v = Some t" "Gender t \<noteq> []"
      unfolding registered_def by blast
    with False show ?thesis by (simp add: us)
  qed
  have p: "Gender t \<noteq> [] \<and> users b1 (Partner t) \<noteq> None"
    if v: "users b1 v = Some t" and pt: "Partner t \<noteq> 0" for v t
  proof -
    from v assms(2) obtain t0 where
      t0: "users b v = Some t0" "Partner t = Partner t0" "Gender t = Gender t0"
      by (auto simp: us split: if_splits)
    with assms(1) pt have "Gender t0 \<noteq> []" "users b (Partner t0) \<noteq> None"
      unfolding registered_def by fastforce+
    with t0 show ?thesis by (simp add: us)
  qed
  have qs: "maleQueue b1 = maleQueue b" "femaleQueue b1 = femaleQueue b"
    by (simp_all add: b1_def)
  have "registered (b1\<lparr>maleQueue := maleQueue b @ [u]\<rparr>)"
    unfolding registered_def using q p by (auto simp: qs)
  moreover have "registered (b1\<lparr>femaleQueue := femaleQueue b @ [u]\<rparr>)"
    unfolding registered_def using q p by (auto simp: qs)
  ultimately show ?thesis unfolding b1_def by simp
qed

lemma registered_startChat:
  assumes "registered b" and "startChat u b = Some (b', out)"
  shows "registered b'"
proof -
  from assms(2) obtain s where s: "users b u = Some s"
    by (auto simp: startChat_def split: option.splits)
  show ?thesis
  proof (cases "Gender s = [] \<or> Partner s \<noteq> 0")
    case True
    with assms(2) s have "b' = b" by (auto simp: startChat_def split: if_splits)
    with assms(1) show ?thesis by simp
  next
    case False
    then have g: "Gender s \<noteq> []" and p: "Partner s = 0" by auto
    from assms(2) obtain out' where
      "matchUsers
         (if Gender s = Male
          then (modify u (\<lambda>s. s\<lparr>Waiting := True\<rparr>) b)\<lparr>maleQueue := maleQueue b @ [u]\<rparr>
          else (modify u (\<lambda>s. s\<lparr>Waiting := True\<rparr>) b)\<lparr>femaleQueue := femaleQueue b @ [u]\<rparr>)
       = Some (b', out')"
      unfolding startChat_enqueue [OF s g p] by auto
    with registered_enqueue [OF assms(1) s g] show ?thesis
      by (rule registered_matchUsers)
  qed
qed

lemma startChat_no_panic:
  assumes "registered b" and "users b u \<noteq> None"
  shows "startChat u b \<noteq> None"
proof -
  from assms(2) obtain s where s: "users b u = Some s" by auto
  show ?thesis
  proof (cases "Gender s = [] \<or> Partner s \<noteq> 0")
    case True
    with s show ?thesis by (auto simp: startChat_def)
  next
    case False
    then have g: "Gender s \<noteq> []" and p: "Partner s = 0" by auto
    from matchUsers_no_panic [OF registered_enqueue [OF assms(1) s g]]
    show ?thesis unfolding startChat_enqueue [OF s g p] by auto
  qed
qed

lemma registered_stopChat:
  assumes "registered b" and "stopChat u b = Some (b', out)"
  shows "registered b'"
proof -
  from assms(2) obtain s where s: "users b u = Some s"
    by (auto simp: stopChat_def split: option.splits)
  show ?thesis
  proof (cases "Partner s = 0")
    case True
    with assms(2) s have "b' = b" by (simp add: stopChat_def)
    with assms(1) show ?thesis by simp
  next
    case False
    let ?c = "modify (Partner s) (\<lambda>s. s\<lparr>Partner := 0\<rparr>) (modify u (\<lambda>s. s\<lparr>Partner := 0\<rparr>) b)"
    from False assms(2) s have b': "b' = removeFromQueue (Partner s) (removeFromQueue u ?c)"
      by (auto simp: stopChat_def Let_def split: option.splits)
    have qm: "set (maleQueue b') \<subseteq> set (maleQueue b)"
      unfolding b' using maleQueue_removeFromQueue [of "Partner s" "removeFromQueue u ?c"]
        maleQueue_removeFromQueue [of u ?c] by auto
    have qf: "set (femaleQueue b') \<subseteq> set (femaleQueue b)"
      unfolding b' using femaleQueue_removeFromQueue [of "Partner s" "removeFromQueue u ?c"]
        femaleQueue_removeFromQueue [of u ?c] by auto
    have us: "users b' = users ?c" unfolding b' by simp
    have dom: "\<And>k. users b k \<noteq> None \<Longrightarrow> users ?c k \<noteq> None" by auto
    show ?thesis
      unfolding registered_def
    proof (intro conjI ballI allI impI)
      fix v assume "v \<in> set (maleQueue b') \<union> set (femaleQueue b')"
      with qm qf have "v \<in> set (maleQueue b) \<union> set (femaleQueue b)" by blast
      with assms(1) obtain t where "users b v = Some t" "Gender t \<noteq> []"
        unfolding registered_def by blast
      then show "\<exists>t. users b' v = Some t \<and> Gender t \<noteq> []"
        unfolding us by auto
    next
      fix v t assume v: "users b' v = Some t" and pt: "Partner t \<noteq> 0"
      from v pt have "users b v = Some t"
        unfolding us by (auto split: if_splits)
      with assms(1) pt have "Gender t \<noteq> []" "users b (Partner t) \<noteq> None"
        unfolding registered_def by blast+
      then show "Gender t \<noteq> []" and "users b' (Partner t) \<noteq> None"
        unfolding us using dom by simp_all
    qed
  qed
qed

lemma stopChat_no_panic:
  assumes "registered b" and "users b u \<noteq> None"
  shows "stopChat u b \<noteq> None"
proof -
  from assms(2) obtain s where s: "users b u = Some s" by auto
  show ?thesis
  proof (cases "Partner s = 0")
    case True
    with s show ?thesis by (simp add: stopChat_def)
  next
    case False
    with assms(1) s have "users b (Partner s) \<noteq> None"
      unfolding registered_def by blast
    with s False show ?thesis
      by (auto simp: stopChat_def Let_def)
  qed
qed

lemma stopChat_keeps_users:
  "stopChat u b = Some (b', out) \<Longrightarrow> users b k \<noteq> None \<Longrightarrow> users b' k \<noteq> None"
  by (auto simp: stopChat_def Let_def split: option.splits if_splits)

lemma registered_nextPartner:
  assumes "registered b" and "nextPartner u b = Some (b', out)"
  shows "registered b'"
proof -
  from assms(2) obtain b1 out1 out2 where
    "stopChat u b = Some (b1, out1)" and "startChat u b1 = Some (b', out2)"
    by (auto simp: nextPartner_def split: option.splits)
  with assms(1) show ?thesis
    by (blast intro: registered_stopChat registered_startChat)
qed

lemma nextPartner_no_panic:
  assumes "registered b" and "users b u \<noteq> None"
  shows "nextPartner u b \<noteq> None"
proof -
  from stopChat_no_panic [OF assms] obtain b1 out1 where st: "stopChat u b = Some (b1, out1)"
    by auto
  have "registered b1" using assms(1) st by (rule registered_stopChat)
  moreover have "users b1 u \<noteq> None" using st assms(2) by (rule stopChat_keeps_users)
  ultimately have "startChat u b1 \<noteq> None" by (rule startChat_no_panic)
  with st show ?thesis by (auto simp: nextPartner_def)
qed

lemma registered_handleCallback:
  assumes "registered b" and "handleCallback u d b = Some (b', out)"
  shows "registered b'"
proof -
  have r0: "registered (getOrCreate u b)"
    using assms(1) by (rule registered_getOrCreate)
  from assms(2) consider
      out' where "setGender u Male (getOrCreate u b) = Some (b', out')"
    | out' where "setGender u Female (getOrCreate u b) = Some (b', out')"
    | out' where "startChat u (getOrCreate u b) = Some (b', out')"
    | "b' = getOrCreate u b"
    by (auto simp: handleCallback_def Let_def split: option.splits if_splits)
  then show ?thesis
  proof cases
    case 1
    from registered_setGender [OF r0 _ 1] show ?thesis by (simp add: Male_def)
  next
    case 2
    from registered_setGender [OF r0 _ 2] show ?thesis by (simp add: Female_def)
  next
    case 3
    with r0 show ?thesis by (rule registered_startChat)
  next
    case 4
    with r0 show ?thesis by simp
  qed
qed

lemma handleCallback_no_panic:
  assumes "registered b"
  shows "handleCallback u d b \<noteq> None"
proof -
  have r0: "registered (getOrCreate u b)"
    using assms by (rule registered_getOrCreate)
  have u0: "users (getOrCreate u b) u \<noteq> None" by (rule users_getOrCreate)
  from startChat_no_panic [OF r0 u0] u0 show ?thesis
    by (auto simp: handleCallback_def Let_def setGender_def split: option.splits)
qed

lemma registered_handleUpdate:
  assumes "registered b" and "handleUpdate u b = Some (b', out)"
  shows "registered b'"
proof (cases u)
  case (CallbackQuery userID d)
  with assms show ?thesis
    by (auto simp: handleUpdate_def intro: registered_handleCallback)
next
  case Other
  with assms show ?thesis by (simp add: handleUpdate_def)
next
  case (Message userID t)
  have r0: "registered (getOrCreate userID b)"
    using assms(1) by (rule registered_getOrCreate)
  from assms(2) Message consider
      "b' = getOrCreate userID b"
    | "stopChat userID (getOrCreate userID b) = Some (b', out)"
    | "nextPartner userID (getOrCreate userID b) = Some (b', out)"
    by (auto simp: handleUpdate_def handleStart_def forwardMessage_def Let_def
        split: if_splits option.splits)
  then show ?thesis
    using r0
    by cases (blast intro: registered_stopChat registered_nextPartner)+
qed

lemma handleUpdate_no_panic:
  assumes "registered b"
  shows "handleUpdate u b \<noteq> None"
proof (cases u)
  case (CallbackQuery userID d)
  with handleCallback_no_panic [OF assms] show ?thesis by (simp add: handleUpdate_def)
next
  case Other
  then show ?thesis by (simp add: handleUpdate_def)
next
  case (Message userID t)
  have r0: "registered (getOrCreate userID b)"
    using assms by (rule registered_getOrCreate)
  have u0: "users (getOrCreate userID b) userID \<noteq> None" by (rule users_getOrCreate)
  from stopChat_no_panic [OF r0 u0] nextPartner_no_panic [OF r0 u0] u0 Message
  show ?thesis
    by (auto simp: handleUpdate_def handleStart_def forwardMessage_def Let_def)
qed

lemma reachable_registered: "reachable b \<Longrightarrow> registered b"
  by (induction rule: reachable.induct)
     (auto intro: registered_NewBot registered_handleUpdate registered_matchUsers)

lemma Run_no_panic: "registered b \<Longrightarrow> Run us b \<noteq> None"
proof (induction us arbitrary: b)
  case Nil
  then show ?case by simp
next
  case (Cons u us)
  from handleUpdate_no_panic [OF Cons.prems, of u] obtain b1 out1 where
    h: "handleUpdate u b = Some (b1, out1)" by auto
  have "registered b1" using Cons.prems h by (rule registered_handleUpdate)
  from Cons.IH [OF this] h show ?case by auto
qed

section \<open>Waiting and paired exclude each other\<close>

text \<open>
  Claim C4.  In every reachable state, no user has the waiting flag set together with a
  partner: waiting implies that the partner field is 0 (none), and a partner other than 0
  implies that the waiting flag is clear.
\<close>

theorem waiting_excludes_partner:
  assumes "reachable b" and "users b u = Some s"
  shows "(Waiting s \<longrightarrow> Partner s = 0) \<and> (Partner s \<noteq> 0 \<longrightarrow> \<not> Waiting s)
         \<and> \<not> (Waiting s \<and> Partner s \<noteq> 0)"
  using reachable_exclusive [OF assms(1)] assms(2) by (auto simp: exclusive_def)

theorem waiting_excludes_partner_witness:
  "reachable (stateAfter oneWaitsTwoChat)
   \<and> users (stateAfter oneWaitsTwoChat) 2 = Some \<lparr>Gender = Male, Partner = 0, Waiting = True\<rparr>
   \<and> users (stateAfter oneWaitsTwoChat) 1 = Some \<lparr>Gender = Male, Partner = 3, Waiting = False\<rparr>
   \<and> \<not> (Waiting \<lparr>Gender = Male, Partner = 3, Waiting = False\<rparr>
            \<and> Partner \<lparr>Gender = Male, Partner = 3, Waiting = False\<rparr> \<noteq> 0)"
proof -
  have r: "reachable (stateAfter oneWaitsTwoChat)" by (rule reachable_stateAfter)
  have u2: "users (stateAfter oneWaitsTwoChat) 2 = Some \<lparr>Gender = Male, Partner = 0, Waiting = True\<rparr>"
    unfolding oneWaitsTwoChat_def by code_simp
  have u1: "users (stateAfter oneWaitsTwoChat) 1 = Some \<lparr>Gender = Male, Partner = 3, Waiting = False\<rparr>"
    unfolding oneWaitsTwoChat_def by code_simp
  from waiting_excludes_partner [OF r u1] r u1 u2 show ?thesis by simp
qed


section \<open>Starting a search\<close>

text \<open>
  Claim C6.  For a user of a reachable state, \<open>startChat\<close> answers "choose a gender first"
  and leaves the state as it is exactly when the gender is unset; it answers "already in a
  chat" and leaves the state as it is exactly when the partner field is not 0; otherwise
  it sets the waiting flag, appends the user to the queue of the gender, sends "searching"
  and runs \<open>matchUsers\<close>, which returns.
\<close>

theorem startChat_failures:
  assumes "reachable b" and "users b u = Some s"
  shows "(startChat u b = Some (b, [SendMessage u ChooseGenderFirst]) \<longleftrightarrow> Gender s = [])
       \<and> (startChat u b = Some (b, [SendMessage u AlreadyInChat]) \<longleftrightarrow> Partner s \<noteq> 0)
       \<and> (Gender s \<noteq> [] \<and> Partner s = 0 \<longrightarrow>
            startChat u b \<noteq> None \<and>
            startChat u b =
              map_option (\<lambda>(b', out). (b', SendMessage u Searching # out))
                (matchUsers
                  (if Gender s = Male
                   then (modify u (\<lambda>s. s\<lparr>Waiting := True\<rparr>) b)\<lparr>maleQueue := maleQueue b @ [u]\<rparr>
                   else (modify u (\<lambda>s. s\<lparr>Waiting := True\<rparr>) b)\<lparr>femaleQueue := femaleQueue b @ [u]\<rparr>)))"
proof -
  have reg: "registered b" using assms(1) by (rule reachable_registered)
  have pg: "Partner s \<noteq> 0 \<Longrightarrow> Gender s \<noteq> []"
    using reg assms(2) unfolding registered_def by blast
  have ok: "startChat u b \<noteq> None"
    using reg assms(2) by (intro startChat_no_panic) simp_all
  show ?thesis
  proof (cases "Gender s = []")
    case True
    with pg have "Partner s = 0" by blast
    with True startChat_no_gender [OF assms(2) True] show ?thesis by simp
  next
    case g: False
    show ?thesis
    proof (cases "Partner s = 0")
      case False
      with g startChat_paired [OF assms(2) g False] show ?thesis by simp
    next
      case True
      from startChat_enqueue [OF assms(2) g True] ok g True show ?thesis
        by (auto split: prod.splits)
    qed
  qed
qed

theorem startChat_failures_witness:
  "reachable (stateAfter maleIdle)
   \<and> users (stateAfter maleIdle) 1 = Some \<lparr>Gender = Male, Partner = 0, Waiting = False\<rparr>
   \<and> startChat 1 (stateAfter maleIdle) \<noteq> None
   \<and> startChat 1 (stateAfter maleIdle) =
        map_option (\<lambda>(b', out). (b', SendMessage 1 Searching # out))
          (matchUsers ((modify 1 (\<lambda>s. s\<lparr>Waiting := True\<rparr>) (stateAfter maleIdle))
                         \<lparr>maleQueue := maleQueue (stateAfter maleIdle) @ [1]\<rparr>))
   \<and> reachable (stateAfter oneWaitsTwoChat)
   \<and> users (stateAfter oneWaitsTwoChat) 1 = Some \<lparr>Gender = Male, Partner = 3, Waiting = False\<rparr>
   \<and> startChat 1 (stateAfter oneWaitsTwoChat)
       = Some (stateAfter oneWaitsTwoChat, [SendMessage 1 AlreadyInChat])"
proof -
  let ?s = "\<lparr>Gender = Male, Partner = 0, Waiting = False\<rparr>"
  let ?s' = "\<lparr>Gender = Male, Partner = 3, Waiting = False\<rparr>"
  have r: "reachable (stateAfter maleIdle)" by (rule reachable_stateAfter)
  have u: "users (stateAfter maleIdle) 1 = Some ?s"
    unfolding maleIdle_def by code_simp
  have r': "reachable (stateAfter oneWaitsTwoChat)" by (rule reachable_stateAfter)
  have u': "users (stateAfter oneWaitsTwoChat) 1 = Some ?s'"
    unfolding oneWaitsTwoChat_def by code_simp
  have g: "Gender ?s \<noteq> [] \<and> Partner ?s = 0" "Gender ?s = Male" "Partner ?s' \<noteq> 0"
    by (simp_all add: Male_def)
  from startChat_failures [OF r u] g(1)
  have "startChat 1 (stateAfter maleIdle) \<noteq> None
        \<and> startChat 1 (stateAfter maleIdle) =
            map_option (\<lambda>(b', out). (b', SendMessage 1 Searching # out))
              (matchUsers
                (if Gender ?s = Male
                 then (modify 1 (\<lambda>s. s\<lparr>Waiting := True\<rparr>) (stateAfter maleIdle))
                        \<lparr>maleQueue := maleQueue (stateAfter maleIdle) @ [1]\<rparr>
                 else (modify 1 (\<lambda>s. s\<lparr>Waiting := True\<rparr>) (stateAfter maleIdle))
                        \<lparr>femaleQueue := femaleQueue (stateAfter maleIdle) @ [1]\<rparr>))"
    by blast
  then have a: "startChat 1 (stateAfter maleIdle) \<noteq> None
        \<and> startChat 1 (stateAfter maleIdle) =
            map_option (\<lambda>(b', out). (b', SendMessage 1 Searching # out))
              (matchUsers ((modify 1 (\<lambda>s. s\<lparr>Waiting := True\<rparr>) (stateAfter maleIdle))
                        \<lparr>maleQueue := maleQueue (stateAfter maleIdle) @ [1]\<rparr>))"
    unfolding if_P [OF g(2)] .
  from startChat_failures [OF r' u'] g(3)
  have b: "startChat 1 (stateAfter oneWaitsTwoChat)
             = Some (stateAfter oneWaitsTwoChat, [SendMessage 1 AlreadyInChat])"
    by blast
  from r u a r' u' b show ?thesis by blast
qed

section \<open>Relaying a message\<close>

text \<open>
  Claim C8.  \<open>forwardMessage\<close> returns the state it was given.  With a partner it sends the
  text, unchanged, to the partner and to nobody else; without one it sends the "not in a
  chat" hint to the sender and nothing to anybody else.  Every text other than the three
  commands is handled this way.
\<close>

theorem forwardMessage_relays:
  assumes "users b u = Some s"
  shows "(Partner s \<noteq> 0 \<longrightarrow>
            forwardMessage u t b = Some (b, [SendMessage (Partner s) (UserText t)]))
       \<and> (Partner s = 0 \<longrightarrow>
            forwardMessage u t b = Some (b, [SendMessage u NotInChatHint]))
       \<and> (t \<noteq> ''/start'' \<and> t \<noteq> ''/stop'' \<and> t \<noteq> ''/next'' \<longrightarrow>
            handleUpdate (Message u t) b = forwardMessage u t b)"
  using assms
  by (simp add: forwardMessage_def handleUpdate_def getOrCreate_def)

theorem forwardMessage_relays_witness:
  "users (stateAfter oneWaitsTwoChat) 1 = Some \<lparr>Gender = Male, Partner = 3, Waiting = False\<rparr>
   \<and> handleUpdate (Message 1 ''hello'') (stateAfter oneWaitsTwoChat)
       = Some (stateAfter oneWaitsTwoChat, [SendMessage 3 (UserText ''hello'')])
   \<and> users (stateAfter oneWaitsTwoChat) 2 = Some \<lparr>Gender = Male, Partner = 0, Waiting = True\<rparr>
   \<and> handleUpdate (Message 2 ''hello'') (stateAfter oneWaitsTwoChat)
       = Some (stateAfter oneWaitsTwoChat, [SendMessage 2 NotInChatHint])"
proof -
  have u1: "users (stateAfter oneWaitsTwoChat) 1 = Some \<lparr>Gender = Male, Partner = 3, Waiting = False\<rparr>"
    unfolding oneWaitsTwoChat_def by code_simp
  have u2: "users (stateAfter oneWaitsTwoChat) 2 = Some \<lparr>Gender = Male, Partner = 0, Waiting = True\<rparr>"
    unfolding oneWaitsTwoChat_def by code_simp
  from forwardMessage_relays [OF u1, of "''hello''"] forwardMessage_relays [OF u2, of "''hello''"]
    u1 u2
  show ?thesis by simp
qed

section \<open>Choosing a gender\<close>

text \<open>
  Claim C10.  \<open>setGender\<close> succeeds for every user that has a state, whatever the partner
  field and the waiting flag are, and changes only the gender of the caller: partner field,
  waiting flag, every other user and both queues stay as they are.  So a user who waits in
  one queue and chooses the other gender stays in the queue of the first choice.
\<close>

theorem setGender_frame:
  assumes "users b u = Some s"
  shows "(case setGender u g b of
            None \<Rightarrow> False
          | Some (b', out) \<Rightarrow>
              out = [SendMessage u (GenderChosen g)]
            \<and> users b' u = Some (s\<lparr>Gender := g\<rparr>)
            \<and> partnerOf b' u = partnerOf b u
            \<and> waitingOf b' u = waitingOf b u
            \<and> (\<forall>v. v \<noteq> u \<longrightarrow> users b' v = users b v)
            \<and> maleQueue b' = maleQueue b
            \<and> femaleQueue b' = femaleQueue b)
       \<and> handleCallback u ''gender_male'' b
           = map_option (\<lambda>(b', out). (b', out @ [AnswerCallback, DeleteMessage u]))
               (setGender u Male b)
       \<and> handleCallback u ''gender_female'' b
           = map_option (\<lambda>(b', out). (b', out @ [AnswerCallback, DeleteMessage u]))
               (setGender u Female b)"
  using assms
  by (simp add: setGender_def handleCallback_def getOrCreate_def partnerOf_def waitingOf_def)

theorem setGender_frame_witness:
  "users (stateAfter maleWaiting) 1 = Some \<lparr>Gender = Male, Partner = 0, Waiting = True\<rparr>
   \<and> maleQueue (stateAfter maleWaiting) = [1]
   \<and> (case setGender 1 Female (stateAfter maleWaiting) of
         None \<Rightarrow> False
       | Some (b', out) \<Rightarrow>
           users b' 1 = Some \<lparr>Gender = Female, Partner = 0, Waiting = True\<rparr>
         \<and> maleQueue b' = [1] \<and> femaleQueue b' = [])"
proof -
  have u: "users (stateAfter maleWaiting) 1 = Some \<lparr>Gender = Male, Partner = 0, Waiting = True\<rparr>"
    unfolding maleWaiting_def by code_simp
  have q: "maleQueue (stateAfter maleWaiting) = [1]" "femaleQueue (stateAfter maleWaiting) = []"
    unfolding maleWaiting_def by code_simp+
  from setGender_frame [OF u, of Female] u q show ?thesis
    by (auto split: option.splits)
qed

section \<open>Leaving a chat\<close>

lemma removeFirst_remove1:
  "removeFirst u q = (if u \<in> set q then Some (remove1 u q) else None)"
  by (induction q) auto

lemma maleQueue_removeFromQueue_eq:
  "maleQueue (removeFromQueue u b) = remove1 u (maleQueue b)"
  by (simp add: removeFromQueue_def removeFirst_remove1 remove1_idem)

lemma femaleQueue_removeFromQueue_eq:
  "femaleQueue (removeFromQueue u b) =
     (if u \<in> set (maleQueue b) then femaleQueue b else remove1 u (femaleQueue b))"
  by (simp add: removeFromQueue_def removeFirst_remove1 remove1_idem)

lemma stopChat_paired:
  assumes "users b x = Some sx" "Partner sx \<noteq> 0" "users b (Partner sx) = Some sy"
  shows "stopChat x b =
           Some (removeFromQueue (Partner sx) (removeFromQueue x
                   (modify (Partner sx) (\<lambda>s. s\<lparr>Partner := 0\<rparr>)
                      (modify x (\<lambda>s. s\<lparr>Partner := 0\<rparr>) b))),
                 [SendMessage x ChatEnded, SendMessage (Partner sx) PartnerEnded])"
  using assms by (simp add: stopChat_def Let_def)

text \<open>
  Each round of the loop of \<open>matchUsers\<close> takes one entry off each queue, so the loop keeps
  the parity of the number of queued entries; \<open>startChat\<close> adds one entry before the loop,
  so it never returns the state it was given once it has got past its two refusals.
\<close>

lemma matchUsers_parity:
  assumes "matchUsers b = Some (b', out)"
  shows "even (length (maleQueue b') + length (femaleQueue b'))
         = even (length (maleQueue b) + length (femaleQueue b))"
proof -
  let ?P = "\<lambda>c :: Bot. even (length (maleQueue c) + length (femaleQueue c))
                = even (length (maleQueue b) + length (femaleQueue b))"
  have "?P b'"
  proof (rule matchUsers_invariant [where P = ?P, OF _ _ assms])
    show "?P b" by simp
  next
    fix c
    assume p: "?P c" and ne: "maleQueue c \<noteq> []" "femaleQueue c \<noteq> []"
    from ne obtain m ms f fs where "maleQueue c = m # ms" "femaleQueue c = f # fs"
      by (auto simp: neq_Nil_conv)
    with p show "?P (pairHeads c)" by simp
  qed
  then show ?thesis .
qed

lemma startChat_changes_state:
  assumes "users b u = Some s" "Gender s \<noteq> []" "Partner s = 0"
  shows "startChat u b \<noteq> Some (b, out)"
proof
  assume eq: "startChat u b = Some (b, out)"
  define c where "c =
    (if Gender s = Male
     then (modify u (\<lambda>s. s\<lparr>Waiting := True\<rparr>) b)\<lparr>maleQueue := maleQueue b @ [u]\<rparr>
     else (modify u (\<lambda>s. s\<lparr>Waiting := True\<rparr>) b)\<lparr>femaleQueue := femaleQueue b @ [u]\<rparr>)"
  from eq startChat_enqueue [OF assms] obtain out' where m: "matchUsers c = Some (b, out')"
    unfolding c_def by (auto split: option.splits)
  define n where "n = length (maleQueue b) + length (femaleQueue b)"
  have len: "length (maleQueue c) + length (femaleQueue c) = Suc n"
    by (simp add: c_def n_def)
  have "even n = even (length (maleQueue c) + length (femaleQueue c))"
    unfolding n_def by (rule matchUsers_parity [OF m])
  then have "even n = even (Suc n)"
    by (simp only: len)
  then show False by simp
qed

text \<open>\<open>nextPartner\<close> is \<open>stopChat\<close> followed by \<open>startChat\<close>, whatever the first step did.\<close>

lemma nextPartner_composes:
  "nextPartner x b =
     Option.bind (stopChat x b)
       (\<lambda>(b1, out1). map_option (\<lambda>(b2, out2). (b2, out1 @ out2)) (startChat x b1))"
  by (auto simp: nextPartner_def split: option.splits)

lemma nextPartner_unpaired:
  assumes "users b x = Some sx" "Partner sx = 0"
  shows "nextPartner x b =
           map_option (\<lambda>(b', out). (b', SendMessage x NotInChat # out)) (startChat x b)"
proof -
  from assms have "stopChat x b = Some (b, [SendMessage x NotInChat])"
    by (simp add: stopChat_def)
  then show ?thesis
    by (cases "startChat x b") (auto simp: nextPartner_def)
qed

lemma stopChat_paired_effect:
  assumes "users b x = Some sx" "Partner sx \<noteq> 0" "users b (Partner sx) = Some sy"
  shows "\<exists>b1. stopChat x b
                = Some (b1, [SendMessage x ChatEnded, SendMessage (Partner sx) PartnerEnded])
             \<and> users b1 x = Some (sx\<lparr>Partner := 0\<rparr>)
             \<and> users b1 (Partner sx) = Some (sy\<lparr>Partner := 0\<rparr>)
             \<and> (\<forall>v. v \<noteq> x \<and> v \<noteq> Partner sx \<longrightarrow> users b1 v = users b v)
             \<and> maleQueue b1 = remove1 (Partner sx) (remove1 x (maleQueue b))
             \<and> (femaleQueue b = [] \<longrightarrow> femaleQueue b1 = [])
             \<and> (maleQueue b = [] \<longrightarrow>
                  femaleQueue b1 = remove1 (Partner sx) (remove1 x (femaleQueue b)))"
proof -
  define y where "y = Partner sx"
  define b1 where "b1 = removeFromQueue y (removeFromQueue x
                   (modify y (\<lambda>s. s\<lparr>Partner := 0\<rparr>) (modify x (\<lambda>s. s\<lparr>Partner := 0\<rparr>) b)))"
  have st: "stopChat x b = Some (b1, [SendMessage x ChatEnded, SendMessage y PartnerEnded])"
    using stopChat_paired [OF assms] unfolding b1_def y_def by simp
  have uy: "users b y = Some sy" using assms(3) by (simp add: y_def)
  have u1: "users b1 v = (if v = y then Some (sy\<lparr>Partner := 0\<rparr>)
                          else if v = x then Some (sx\<lparr>Partner := 0\<rparr>) else users b v)" for v
    using assms(1) uy by (auto simp: b1_def)
  have ux: "users b1 x = Some (sx\<lparr>Partner := 0\<rparr>)"
    using assms(1) uy by (auto simp: u1)
  have mq1: "maleQueue b1 = remove1 y (remove1 x (maleQueue b))"
    by (simp add: b1_def maleQueue_removeFromQueue_eq)
  have fq1: "femaleQueue b = [] \<Longrightarrow> femaleQueue b1 = []"
    by (simp add: b1_def femaleQueue_removeFromQueue_eq)
  have fq2: "maleQueue b = [] \<Longrightarrow> femaleQueue b1 = remove1 y (remove1 x (femaleQueue b))"
    by (simp add: b1_def femaleQueue_removeFromQueue_eq maleQueue_removeFromQueue_eq)
  from st ux u1 mq1 fq1 fq2 show ?thesis
    unfolding y_def by (intro exI [of _ b1]) simp
qed

section \<open>Failures leave the state alone, except in nextPartner\<close>

text \<open>
  Claim C7, as amended.  \<open>stopChat\<close> for a user whose partner field is 0 (idle or waiting)
  sends the "not in a chat" text to the caller and returns the very state it was given:
  the caller, every other user and both queues are untouched.  The same holds for the
  refusals of \<open>startChat\<close> (no gender, or a partner) and of \<open>forwardMessage\<close> (no partner).
  \<open>nextPartner\<close>, which handles \<open>/next\<close>, is different: for a caller whose partner field is 0
  it sends the same "not in a chat" text and then runs \<open>startChat\<close> on the unchanged state.
  The state stays as it was only when \<open>startChat\<close> refuses too (no gender); when the caller
  has a gender, "searching" follows, the caller is appended to a queue, the matching loop
  runs, and the state returned is never the state given.
\<close>

theorem failures_change_nothing:
  assumes "users b u = Some s"
  shows "(Partner s = 0 \<longrightarrow>
            stopChat u b = Some (b, [SendMessage u NotInChat])
          \<and> handleUpdate (Message u ''/stop'') b = Some (b, [SendMessage u NotInChat])
          \<and> forwardMessage u t b = Some (b, [SendMessage u NotInChatHint]))
       \<and> (Gender s = [] \<longrightarrow>
            startChat u b = Some (b, [SendMessage u ChooseGenderFirst]))
       \<and> (Gender s \<noteq> [] \<and> Partner s \<noteq> 0 \<longrightarrow>
            startChat u b = Some (b, [SendMessage u AlreadyInChat]))
       \<and> handleUpdate (Message u ''/next'') b = nextPartner u b
       \<and> (Partner s = 0 \<longrightarrow>
            nextPartner u b =
              map_option (\<lambda>(b', out). (b', SendMessage u NotInChat # out)) (startChat u b))
       \<and> (Partner s = 0 \<and> Gender s = [] \<longrightarrow>
            nextPartner u b
              = Some (b, [SendMessage u NotInChat, SendMessage u ChooseGenderFirst]))
       \<and> (Partner s = 0 \<and> Gender s \<noteq> [] \<longrightarrow>
            (\<forall>out. nextPartner u b \<noteq> Some (b, out))
          \<and> nextPartner u b =
              map_option (\<lambda>(b', out). (b', SendMessage u NotInChat # SendMessage u Searching # out))
                (matchUsers
                  (if Gender s = Male
                   then (modify u (\<lambda>s. s\<lparr>Waiting := True\<rparr>) b)\<lparr>maleQueue := maleQueue b @ [u]\<rparr>
                   else (modify u (\<lambda>s. s\<lparr>Waiting := True\<rparr>) b)\<lparr>femaleQueue := femaleQueue b @ [u]\<rparr>)))"
proof (intro conjI impI)
  assume "Partner s = 0"
  with assms show "stopChat u b = Some (b, [SendMessage u NotInChat])"
    and "handleUpdate (Message u ''/stop'') b = Some (b, [SendMessage u NotInChat])"
    and "forwardMessage u t b = Some (b, [SendMessage u NotInChatHint])"
    by (simp_all add: stopChat_def forwardMessage_def handleUpdate_def getOrCreate_def)
next
  assume "Gender s = []"
  with assms show "startChat u b = Some (b, [SendMessage u ChooseGenderFirst])"
    by (rule startChat_no_gender)
next
  assume "Gender s \<noteq> [] \<and> Partner s \<noteq> 0"
  with assms show "startChat u b = Some (b, [SendMessage u AlreadyInChat])"
    by (simp add: startChat_paired)
next
  from assms show "handleUpdate (Message u ''/next'') b = nextPartner u b"
    by (simp add: handleUpdate_def getOrCreate_def)
next
  assume "Partner s = 0"
  with assms show "nextPartner u b =
      map_option (\<lambda>(b', out). (b', SendMessage u NotInChat # out)) (startChat u b)"
    by (rule nextPartner_unpaired)
next
  assume h: "Partner s = 0 \<and> Gender s = []"
  with nextPartner_unpaired [OF assms] startChat_no_gender [OF assms]
  show "nextPartner u b = Some (b, [SendMessage u NotInChat, SendMessage u ChooseGenderFirst])"
    by simp
next
  assume h: "Partner s = 0 \<and> Gender s \<noteq> []"
  then have p: "Partner s = 0" and g: "Gender s \<noteq> []" by simp_all
  show "\<forall>out. nextPartner u b \<noteq> Some (b, out)"
  proof (intro allI notI)
    fix out assume "nextPartner u b = Some (b, out)"
    with nextPartner_unpaired [OF assms p] obtain out' where "startChat u b = Some (b, out')"
      by (cases "startChat u b") auto
    with startChat_changes_state [OF assms g p, of out'] show False by blast
  qed
  show "nextPartner u b =
      map_option (\<lambda>(b', out). (b', SendMessage u NotInChat # SendMessage u Searching # out))
        (matchUsers
          (if Gender s = Male
           then (modify u (\<lambda>s. s\<lparr>Waiting := True\<rparr>) b)\<lparr>maleQueue := maleQueue b @ [u]\<rparr>
           else (modify u (\<lambda>s. s\<lparr>Waiting := True\<rparr>) b)\<lparr>femaleQueue := femaleQueue b @ [u]\<rparr>))"
    unfolding nextPartner_unpaired [OF assms p] startChat_enqueue [OF assms g p]
    by (simp add: option.map_comp comp_def case_prod_unfold)
qed

theorem failures_change_nothing_witness:
  "users (stateAfter maleWaiting) 1 = Some \<lparr>Gender = Male, Partner = 0, Waiting = True\<rparr>
   \<and> stopChat 1 (stateAfter maleWaiting) = Some (stateAfter maleWaiting, [SendMessage 1 NotInChat])
   \<and> handleUpdate (Message 1 ''/stop'') (stateAfter maleWaiting)
       = Some (stateAfter maleWaiting, [SendMessage 1 NotInChat])
   \<and> forwardMessage 1 ''hello'' (stateAfter maleWaiting)
       = Some (stateAfter maleWaiting, [SendMessage 1 NotInChatHint])
   \<and> nextPartner 1 (stateAfter maleWaiting)
       \<noteq> Some (stateAfter maleWaiting, [SendMessage 1 NotInChat, SendMessage 1 Searching])
   \<and> users (stateAfter oneWaitsTwoChat) 1 = Some \<lparr>Gender = Male, Partner = 3, Waiting = False\<rparr>
   \<and> startChat 1 (stateAfter oneWaitsTwoChat)
       = Some (stateAfter oneWaitsTwoChat, [SendMessage 1 AlreadyInChat])
   \<and> users (stateAfter noGender) 1 = Some \<lparr>Gender = [], Partner = 0, Waiting = False\<rparr>
   \<and> startChat 1 (stateAfter noGender)
       = Some (stateAfter noGender, [SendMessage 1 ChooseGenderFirst])
   \<and> handleUpdate (Message 1 ''/next'') (stateAfter noGender)
       = Some (stateAfter noGender, [SendMessage 1 NotInChat, SendMessage 1 ChooseGenderFirst])"
proof -
  let ?w = "\<lparr>Gender = Male, Partner = 0, Waiting = True\<rparr>"
  let ?p = "\<lparr>Gender = Male, Partner = 3, Waiting = False\<rparr>"
  let ?n = "\<lparr>Gender = [], Partner = 0, Waiting = False\<rparr>"
  have u: "users (stateAfter maleWaiting) 1 = Some ?w"
    unfolding maleWaiting_def by code_simp
  have u': "users (stateAfter oneWaitsTwoChat) 1 = Some ?p"
    unfolding oneWaitsTwoChat_def by code_simp
  have u'': "users (stateAfter noGender) 1 = Some ?n"
    unfolding noGender_def by code_simp
  have g: "Partner ?w = 0" "Gender ?w \<noteq> []" "Gender ?p \<noteq> []" "Partner ?p \<noteq> 0"
    "Partner ?n = 0" "Gender ?n = []"
    by (simp_all add: Male_def)
  note a = failures_change_nothing [OF u, of "''hello''"]
  note b = failures_change_nothing [OF u']
  note c = failures_change_nothing [OF u'']
  from a g have a1: "stopChat 1 (stateAfter maleWaiting)
                       = Some (stateAfter maleWaiting, [SendMessage 1 NotInChat])"
    and a2: "handleUpdate (Message 1 ''/stop'') (stateAfter maleWaiting)
               = Some (stateAfter maleWaiting, [SendMessage 1 NotInChat])"
    and a3: "forwardMessage 1 ''hello'' (stateAfter maleWaiting)
               = Some (stateAfter maleWaiting, [SendMessage 1 NotInChatHint])"
    and a4: "nextPartner 1 (stateAfter maleWaiting)
       \<noteq> Some (stateAfter maleWaiting, [SendMessage 1 NotInChat, SendMessage 1 Searching])"
    by blast+
  from b g have b1: "startChat 1 (stateAfter oneWaitsTwoChat)
       = Some (stateAfter oneWaitsTwoChat, [SendMessage 1 AlreadyInChat])"
    by blast
  from c g have c1: "startChat 1 (stateAfter noGender)
       = Some (stateAfter noGender, [SendMessage 1 ChooseGenderFirst])"
    and c2: "nextPartner 1 (stateAfter noGender)
       = Some (stateAfter noGender, [SendMessage 1 NotInChat, SendMessage 1 ChooseGenderFirst])"
    and c3: "handleUpdate (Message 1 ''/next'') (stateAfter noGender)
               = nextPartner 1 (stateAfter noGender)"
    by blast+
  from u u' u'' a1 a2 a3 a4 b1 c1 c2 c3 show ?thesis by simp
qed

text \<open>
  The claim as stated has every failure of every entry point leave the state unchanged.
  User 1, idle with gender male, sends \<open>/next\<close>: the "not in a chat" text is sent, then
  "searching", and user 1 is now waiting in \<open>maleQueue\<close>.
\<close>

theorem next_failure_changes_state_counterexample:
  "users (stateAfter maleIdle) 1 = Some \<lparr>Gender = Male, Partner = 0, Waiting = False\<rparr>
   \<and> maleQueue (stateAfter maleIdle) = []
   \<and> map_option snd (handleUpdate (Message 1 ''/next'') (stateAfter maleIdle))
       = Some [SendMessage 1 NotInChat, SendMessage 1 Searching]
   \<and> users (stateAfter (maleIdle @ [Message 1 ''/next'']))  1
       = Some \<lparr>Gender = Male, Partner = 0, Waiting = True\<rparr>
   \<and> maleQueue (stateAfter (maleIdle @ [Message 1 ''/next''])) = [1]"
  unfolding maleIdle_def by code_simp

section \<open>Asking for the next partner\<close>

text \<open>
  Claim C9, as amended.  \<open>nextPartner\<close> is \<open>stopChat\<close> followed by \<open>startChat\<close>, and a
  refusal of the first step does not stop the second; but its text is not suppressed: a
  caller with no partner gets "not in a chat", then whatever \<open>startChat\<close> sends.  A caller
  with a partner leaves the chat: both partner fields are cleared and both users are told.
  Then, if the caller has a gender, the caller gets the waiting flag and goes to the tail
  of the queue of that gender, "searching" is sent and the matching loop runs (it pairs
  the caller at once when somebody is queued on the other side); a caller without a gender
  is only told to choose one and does not wait.  In a reachable state in which X chats with
  Y (another user, whose partner field is set too, as it is when they chat with each
  other), X has a gender and the queue of the other gender is empty: Y is told that the
  partner left and is left idle (gender set, not waiting, no partner), X ends waiting at
  the tail of the queue of X's gender, and nobody else changes.
\<close>

theorem nextPartner_restarts:
  assumes "users b x = Some sx"
  shows "nextPartner x b =
           Option.bind (stopChat x b)
             (\<lambda>(b1, out1). map_option (\<lambda>(b2, out2). (b2, out1 @ out2)) (startChat x b1))
       \<and> (Partner sx = 0 \<longrightarrow>
            stopChat x b = Some (b, [SendMessage x NotInChat])
          \<and> nextPartner x b =
              map_option (\<lambda>(b', out). (b', SendMessage x NotInChat # out)) (startChat x b))
       \<and> (Partner sx \<noteq> 0 \<and> users b (Partner sx) = Some sy \<longrightarrow>
            (case stopChat x b of
               None \<Rightarrow> False
             | Some (b1, out1) \<Rightarrow>
                 out1 = [SendMessage x ChatEnded, SendMessage (Partner sx) PartnerEnded]
               \<and> users b1 x = Some (sx\<lparr>Partner := 0\<rparr>)
               \<and> partnerOf b1 (Partner sx) = Some 0
               \<and> (\<forall>v. v \<noteq> x \<and> v \<noteq> Partner sx \<longrightarrow> users b1 v = users b v)
               \<and> nextPartner x b
                   = map_option (\<lambda>(b2, out2). (b2, out1 @ out2)) (startChat x b1)
               \<and> (Gender sx = [] \<longrightarrow>
                    nextPartner x b = Some (b1, out1 @ [SendMessage x ChooseGenderFirst]))
               \<and> (Gender sx \<noteq> [] \<longrightarrow>
                    nextPartner x b =
                      map_option (\<lambda>(b2, out2). (b2, out1 @ SendMessage x Searching # out2))
                        (matchUsers
                          (if Gender sx = Male
                           then (modify x (\<lambda>s. s\<lparr>Waiting := True\<rparr>) b1)
                                  \<lparr>maleQueue := maleQueue b1 @ [x]\<rparr>
                           else (modify x (\<lambda>s. s\<lparr>Waiting := True\<rparr>) b1)
                                  \<lparr>femaleQueue := femaleQueue b1 @ [x]\<rparr>)))))
       \<and> (reachable b \<and> Partner sx \<noteq> 0 \<and> Partner sx \<noteq> x
            \<and> users b (Partner sx) = Some sy \<and> Partner sy \<noteq> 0
            \<and> Gender sx \<noteq> []
            \<and> (if Gender sx = Male then femaleQueue b = [] else maleQueue b = []) \<longrightarrow>
            (case nextPartner x b of
               None \<Rightarrow> False
             | Some (b', out) \<Rightarrow>
                 out = [SendMessage x ChatEnded, SendMessage (Partner sx) PartnerEnded,
                        SendMessage x Searching]
               \<and> users b' (Partner sx) = Some (sy\<lparr>Partner := 0\<rparr>)
               \<and> Gender sy \<noteq> [] \<and> \<not> Waiting sy
               \<and> users b' x = Some (sx\<lparr>Partner := 0, Waiting := True\<rparr>)
               \<and> (\<forall>v. v \<noteq> x \<and> v \<noteq> Partner sx \<longrightarrow> users b' v = users b v)
               \<and> (if Gender sx = Male
                  then maleQueue b' = remove1 (Partner sx) (remove1 x (maleQueue b)) @ [x]
                     \<and> femaleQueue b' = []
                  else femaleQueue b' = remove1 (Partner sx) (remove1 x (femaleQueue b)) @ [x]
                     \<and> maleQueue b' = [])))"
proof (intro conjI impI)
  show "nextPartner x b =
           Option.bind (stopChat x b)
             (\<lambda>(b1, out1). map_option (\<lambda>(b2, out2). (b2, out1 @ out2)) (startChat x b1))"
    by (rule nextPartner_composes)
next
  assume p: "Partner sx = 0"
  with assms show "stopChat x b = Some (b, [SendMessage x NotInChat])"
    by (simp add: stopChat_def)
  from assms p show "nextPartner x b =
      map_option (\<lambda>(b', out). (b', SendMessage x NotInChat # out)) (startChat x b)"
    by (rule nextPartner_unpaired)
next
  assume h: "Partner sx \<noteq> 0 \<and> users b (Partner sx) = Some sy"
  then have p: "Partner sx \<noteq> 0" and y: "users b (Partner sx) = Some sy" by simp_all
  from stopChat_paired_effect [OF assms p y] obtain b1 where
    st: "stopChat x b = Some (b1, [SendMessage x ChatEnded, SendMessage (Partner sx) PartnerEnded])"
    and ux: "users b1 x = Some (sx\<lparr>Partner := 0\<rparr>)"
    and uy: "users b1 (Partner sx) = Some (sy\<lparr>Partner := 0\<rparr>)"
    and fr: "\<forall>v. v \<noteq> x \<and> v \<noteq> Partner sx \<longrightarrow> users b1 v = users b v"
    by blast
  let ?out1 = "[SendMessage x ChatEnded, SendMessage (Partner sx) PartnerEnded]"
  have np: "nextPartner x b = map_option (\<lambda>(b2, out2). (b2, ?out1 @ out2)) (startChat x b1)"
    unfolding nextPartner_composes st by simp
  have py: "partnerOf b1 (Partner sx) = Some 0"
    using uy by (simp add: partnerOf_def)
  have ng: "nextPartner x b = Some (b1, ?out1 @ [SendMessage x ChooseGenderFirst])"
    if "Gender sx = []"
    unfolding np using startChat_no_gender [OF ux] that by simp
  have wg: "nextPartner x b =
              map_option (\<lambda>(b2, out2). (b2, ?out1 @ SendMessage x Searching # out2))
                (matchUsers
                  (if Gender sx = Male
                   then (modify x (\<lambda>s. s\<lparr>Waiting := True\<rparr>) b1)\<lparr>maleQueue := maleQueue b1 @ [x]\<rparr>
                   else (modify x (\<lambda>s. s\<lparr>Waiting := True\<rparr>) b1)\<lparr>femaleQueue := femaleQueue b1 @ [x]\<rparr>))"
    if "Gender sx \<noteq> []"
    unfolding np using startChat_enqueue [OF ux] that
    by (simp add: option.map_comp comp_def case_prod_unfold)
  show "case stopChat x b of
               None \<Rightarrow> False
             | Some (b1, out1) \<Rightarrow>
                 out1 = [SendMessage x ChatEnded, SendMessage (Partner sx) PartnerEnded]
               \<and> users b1 x = Some (sx\<lparr>Partner := 0\<rparr>)
               \<and> partnerOf b1 (Partner sx) = Some 0
               \<and> (\<forall>v. v \<noteq> x \<and> v \<noteq> Partner sx \<longrightarrow> users b1 v = users b v)
               \<and> nextPartner x b
                   = map_option (\<lambda>(b2, out2). (b2, out1 @ out2)) (startChat x b1)
               \<and> (Gender sx = [] \<longrightarrow>
                    nextPartner x b = Some (b1, out1 @ [SendMessage x ChooseGenderFirst]))
               \<and> (Gender sx \<noteq> [] \<longrightarrow>
                    nextPartner x b =
                      map_option (\<lambda>(b2, out2). (b2, out1 @ SendMessage x Searching # out2))
                        (matchUsers
                          (if Gender sx = Male
                           then (modify x (\<lambda>s. s\<lparr>Waiting := True\<rparr>) b1)
                                  \<lparr>maleQueue := maleQueue b1 @ [x]\<rparr>
                           else (modify x (\<lambda>s. s\<lparr>Waiting := True\<rparr>) b1)
                                  \<lparr>femaleQueue := femaleQueue b1 @ [x]\<rparr>)))"
    unfolding st option.case prod.case
    using ux py fr np ng wg by blast
next
  assume h: "reachable b \<and> Partner sx \<noteq> 0 \<and> Partner sx \<noteq> x
            \<and> users b (Partner sx) = Some sy \<and> Partner sy \<noteq> 0
            \<and> Gender sx \<noteq> []
            \<and> (if Gender sx = Male then femaleQueue b = [] else maleQueue b = [])"
  define y where "y = Partner sx"
  from h have r: "reachable b" and p: "Partner sx \<noteq> 0" and yx: "y \<noteq> x"
    and uy: "users b y = Some sy" and psy: "Partner sy \<noteq> 0" and g: "Gender sx \<noteq> []"
    by (simp_all add: y_def)
  from reachable_exclusive [OF r] uy psy have nw: "\<not> Waiting sy"
    unfolding exclusive_def by blast
  from reachable_registered [OF r] uy psy have gy: "Gender sy \<noteq> []"
    unfolding registered_def by blast
  from stopChat_paired_effect [OF assms p] uy obtain b1 where
    st: "stopChat x b = Some (b1, [SendMessage x ChatEnded, SendMessage y PartnerEnded])"
    and ux: "users b1 x = Some (sx\<lparr>Partner := 0\<rparr>)"
    and uy1: "users b1 y = Some (sy\<lparr>Partner := 0\<rparr>)"
    and fr: "\<forall>v. v \<noteq> x \<and> v \<noteq> y \<longrightarrow> users b1 v = users b v"
    and mq1: "maleQueue b1 = remove1 y (remove1 x (maleQueue b))"
    and fq1: "femaleQueue b = [] \<longrightarrow> femaleQueue b1 = []"
    and fq2: "maleQueue b = [] \<longrightarrow> femaleQueue b1 = remove1 y (remove1 x (femaleQueue b))"
    unfolding y_def by blast
  define b2 where "b2 =
    (if Gender sx = Male
     then (modify x (\<lambda>s. s\<lparr>Waiting := True\<rparr>) b1)\<lparr>maleQueue := maleQueue b1 @ [x]\<rparr>
     else (modify x (\<lambda>s. s\<lparr>Waiting := True\<rparr>) b1)\<lparr>femaleQueue := femaleQueue b1 @ [x]\<rparr>)"
  have q2: "if Gender sx = Male
            then maleQueue b2 = remove1 y (remove1 x (maleQueue b)) @ [x] \<and> femaleQueue b2 = []
            else femaleQueue b2 = remove1 y (remove1 x (femaleQueue b)) @ [x] \<and> maleQueue b2 = []"
    using h mq1 fq1 fq2 by (cases "Gender sx = Male") (simp_all add: b2_def)
  then have "maleQueue b2 = [] \<or> femaleQueue b2 = []"
    by (cases "Gender sx = Male") simp_all
  then have m: "matchUsers b2 = Some (b2, [])" by (rule matchUsers_empty)
  have sc: "startChat x b1 = Some (b2, [SendMessage x Searching])"
    using startChat_enqueue [OF ux] g m by (simp add: b2_def)
  have np: "nextPartner x b = Some (b2, [SendMessage x ChatEnded, SendMessage y PartnerEnded,
                                          SendMessage x Searching])"
    using st sc by (simp add: nextPartner_def)
  have us2: "users b2 v = users (modify x (\<lambda>s. s\<lparr>Waiting := True\<rparr>) b1) v" for v
    by (simp add: b2_def)
  have "users b2 y = Some (sy\<lparr>Partner := 0\<rparr>)"
    using yx uy1 by (simp add: us2)
  moreover have "users b2 x = Some (sx\<lparr>Partner := 0, Waiting := True\<rparr>)"
    using ux by (simp add: us2)
  moreover have "\<forall>v. v \<noteq> x \<and> v \<noteq> y \<longrightarrow> users b2 v = users b v"
    using fr by (simp add: us2)
  ultimately show "case nextPartner x b of
               None \<Rightarrow> False
             | Some (b', out) \<Rightarrow>
                 out = [SendMessage x ChatEnded, SendMessage (Partner sx) PartnerEnded,
                        SendMessage x Searching]
               \<and> users b' (Partner sx) = Some (sy\<lparr>Partner := 0\<rparr>)
               \<and> Gender sy \<noteq> [] \<and> \<not> Waiting sy
               \<and> users b' x = Some (sx\<lparr>Partner := 0, Waiting := True\<rparr>)
               \<and> (\<forall>v. v \<noteq> x \<and> v \<noteq> Partner sx \<longrightarrow> users b' v = users b v)
               \<and> (if Gender sx = Male
                  then maleQueue b' = remove1 (Partner sx) (remove1 x (maleQueue b)) @ [x]
                     \<and> femaleQueue b' = []
                  else femaleQueue b' = remove1 (Partner sx) (remove1 x (femaleQueue b)) @ [x]
                     \<and> maleQueue b' = [])"
    unfolding np y_def [symmetric] using q2 nw gy by simp
qed

text \<open>
  The witness: users 1 and 2 chat and nobody is queued, then user 1 asks for the next
  partner; and the same with user 3 queued on the other side, where user 1 is paired with
  user 3 at once.
\<close>

theorem nextPartner_restarts_witness:
  "reachable (stateAfter pairOneTwo)
   \<and> users (stateAfter pairOneTwo) 1 = Some \<lparr>Gender = Male, Partner = 2, Waiting = False\<rparr>
   \<and> users (stateAfter pairOneTwo) 2 = Some \<lparr>Gender = Female, Partner = 1, Waiting = False\<rparr>
   \<and> maleQueue (stateAfter pairOneTwo) = [] \<and> femaleQueue (stateAfter pairOneTwo) = []
   \<and> (case nextPartner 1 (stateAfter pairOneTwo) of
         None \<Rightarrow> False
       | Some (b', out) \<Rightarrow>
           out = [SendMessage 1 ChatEnded, SendMessage 2 PartnerEnded, SendMessage 1 Searching]
         \<and> users b' 2 = Some \<lparr>Gender = Female, Partner = 0, Waiting = False\<rparr>
         \<and> users b' 1 = Some \<lparr>Gender = Male, Partner = 0, Waiting = True\<rparr>
         \<and> maleQueue b' = [1] \<and> femaleQueue b' = [])
   \<and> users (stateAfter pairWithCandidate) 1 = Some \<lparr>Gender = Male, Partner = 2, Waiting = False\<rparr>
   \<and> users (stateAfter pairWithCandidate) 2 = Some \<lparr>Gender = Female, Partner = 1, Waiting = False\<rparr>
   \<and> femaleQueue (stateAfter pairWithCandidate) = [3]
   \<and> (case stopChat 1 (stateAfter pairWithCandidate) of
         None \<Rightarrow> False
       | Some (b1, out1) \<Rightarrow>
           out1 = [SendMessage 1 ChatEnded, SendMessage 2 PartnerEnded]
         \<and> users b1 1 = Some \<lparr>Gender = Male, Partner = 0, Waiting = False\<rparr>
         \<and> partnerOf b1 2 = Some 0
         \<and> nextPartner 1 (stateAfter pairWithCandidate)
             = map_option (\<lambda>(b2, out2). (b2, out1 @ out2)) (startChat 1 b1))
   \<and> map_option snd (nextPartner 1 (stateAfter pairWithCandidate))
       = Some [SendMessage 1 ChatEnded, SendMessage 2 PartnerEnded, SendMessage 1 Searching,
               SendMessage 1 PartnerFound, SendMessage 3 PartnerFound]
   \<and> partnerAfter (nextPartner 1 (stateAfter pairWithCandidate)) 1 = Some 3
   \<and> partnerAfter (nextPartner 1 (stateAfter pairWithCandidate)) 3 = Some 1
   \<and> partnerAfter (nextPartner 1 (stateAfter pairWithCandidate)) 2 = Some 0"
proof -
  let ?B = "stateAfter pairOneTwo"
  let ?C = "stateAfter pairWithCandidate"
  let ?sx = "\<lparr>Gender = Male, Partner = 2, Waiting = False\<rparr>"
  let ?sy = "\<lparr>Gender = Female, Partner = 1, Waiting = False\<rparr>"
  have r: "reachable ?B" by (rule reachable_stateAfter)
  have u1: "users ?B 1 = Some ?sx"
    unfolding pairOneTwo_def by code_simp
  have u2: "users ?B 2 = Some ?sy"
    unfolding pairOneTwo_def by code_simp
  have q: "maleQueue ?B = []" "femaleQueue ?B = []"
    unfolding pairOneTwo_def by code_simp+
  have c1: "users ?C 1 = Some ?sx"
    unfolding pairWithCandidate_def pairOneTwo_def by code_simp
  have c2: "users ?C 2 = Some ?sy"
    unfolding pairWithCandidate_def pairOneTwo_def by code_simp
  have cq: "femaleQueue ?C = [3]"
    unfolding pairWithCandidate_def pairOneTwo_def by code_simp
  have ev: "map_option snd (nextPartner 1 ?C)
       = Some [SendMessage 1 ChatEnded, SendMessage 2 PartnerEnded, SendMessage 1 Searching,
               SendMessage 1 PartnerFound, SendMessage 3 PartnerFound]"
    "partnerAfter (nextPartner 1 ?C) 1 = Some 3"
    "partnerAfter (nextPartner 1 ?C) 3 = Some 1"
    "partnerAfter (nextPartner 1 ?C) 2 = Some 0"
    unfolding pairWithCandidate_def pairOneTwo_def by code_simp+
  from nextPartner_restarts [OF u1, of ?sy] r u2 q
  have s: "case nextPartner 1 ?B of
         None \<Rightarrow> False
       | Some (b', out) \<Rightarrow>
           out = [SendMessage 1 ChatEnded, SendMessage 2 PartnerEnded, SendMessage 1 Searching]
         \<and> users b' 2 = Some \<lparr>Gender = Female, Partner = 0, Waiting = False\<rparr>
         \<and> users b' 1 = Some \<lparr>Gender = Male, Partner = 0, Waiting = True\<rparr>
         \<and> maleQueue b' = [1] \<and> femaleQueue b' = []"
    by (auto simp: Male_def split: option.splits)
  from nextPartner_restarts [OF c1, of ?sy] c2
  have p: "case stopChat 1 ?C of
         None \<Rightarrow> False
       | Some (b1, out1) \<Rightarrow>
           out1 = [SendMessage 1 ChatEnded, SendMessage 2 PartnerEnded]
         \<and> users b1 1 = Some \<lparr>Gender = Male, Partner = 0, Waiting = False\<rparr>
         \<and> partnerOf b1 2 = Some 0
         \<and> nextPartner 1 ?C
             = map_option (\<lambda>(b2, out2). (b2, out1 @ out2)) (startChat 1 b1)"
    by (auto split: option.splits)
  from r u1 u2 q s c1 c2 cq p ev show ?thesis by blast
qed

text \<open>
  The claim as stated has the failure of the first step suppressed, the caller waiting
  afterwards, and the former partner idle whenever the caller's partner field named it.
  User 1, idle with gender male, gets "not in a chat" and then "searching".  User 1
  without a gender gets "not in a chat" and "choose a gender first" and does not wait.
  After \<open>stalePartnerWaits\<close> the partner field of user 2 names user 1, who waits with no
  partner; when user 2 asks for the next partner, user 1 is taken off the queue and keeps
  the waiting flag.
\<close>

theorem nextPartner_notifies_counterexample:
  "map_option snd (nextPartner 1 (stateAfter maleIdle))
     = Some [SendMessage 1 NotInChat, SendMessage 1 Searching]
   \<and> map_option snd (nextPartner 1 (stateAfter noGender))
     = Some [SendMessage 1 NotInChat, SendMessage 1 ChooseGenderFirst]
   \<and> waitingOf (stateAfter (noGender @ [Message 1 ''/next''])) 1 = Some False
   \<and> partnerOf (stateAfter stalePartnerWaits) 2 = Some 1
   \<and> femaleQueue (stateAfter stalePartnerWaits) = []
   \<and> waitingOf (stateAfter (stalePartnerWaits @ [Message 2 ''/next''])) 1 = Some True
   \<and> maleQueue (stateAfter (stalePartnerWaits @ [Message 2 ''/next''])) = [2]"
  unfolding maleIdle_def by code_simp

section \<open>First come, first served\<close>

lemma startChat_pairs_head:
  assumes f: "users b f = Some sf" "Gender sf \<noteq> []" "Partner sf = 0"
    and u: "users b u = Some su"
    and own: "queueOf (Gender sf = Male) b = []"
    and other: "queueOf (Gender sf \<noteq> Male) b = u # rest"
  shows "\<exists>b' out. startChat f b = Some (b', out)
           \<and> set out = {SendMessage f Searching, SendMessage u PartnerFound,
                        SendMessage f PartnerFound}
           \<and> partnerOf b' u = Some f \<and> partnerOf b' f = Some u
           \<and> waitingOf b' u = Some False \<and> waitingOf b' f = Some False
           \<and> (\<forall>v. v \<noteq> u \<and> v \<noteq> f \<longrightarrow> users b' v = users b v)
           \<and> queueOf (Gender sf = Male) b' = []
           \<and> queueOf (Gender sf \<noteq> Male) b' = rest"
proof -
  define b2 where "b2 =
    (if Gender sf = Male
     then (modify f (\<lambda>s. s\<lparr>Waiting := True\<rparr>) b)\<lparr>maleQueue := maleQueue b @ [f]\<rparr>
     else (modify f (\<lambda>s. s\<lparr>Waiting := True\<rparr>) b)\<lparr>femaleQueue := femaleQueue b @ [f]\<rparr>)"
  have sc: "startChat f b =
              map_option (\<lambda>(b', out). (b', SendMessage f Searching # out)) (matchUsers b2)"
    unfolding b2_def by (rule startChat_enqueue [OF f])
  have us2: "users b2 v = (if v = f then Some (sf\<lparr>Waiting := True\<rparr>) else users b v)" for v
    using f(1) by (simp add: b2_def)
  have q2: "maleQueue b2 = (if Gender sf = Male then [f] else u # rest)"
       "femaleQueue b2 = (if Gender sf = Male then u # rest else [f])"
    using own other by (auto simp: b2_def queueOf_def)
  have ne: "maleQueue b2 \<noteq> []" "femaleQueue b2 \<noteq> []"
    by (simp_all add: q2)
  have reg: "users b2 (hd (maleQueue b2)) \<noteq> None" "users b2 (hd (femaleQueue b2)) \<noteq> None"
    using u by (simp_all add: q2 us2)
  have q3: "maleQueue (pairHeads b2) = (if Gender sf = Male then [] else rest)"
       "femaleQueue (pairHeads b2) = (if Gender sf = Male then rest else [])"
    by (simp_all add: q2)
  then have "maleQueue (pairHeads b2) = [] \<or> femaleQueue (pairHeads b2) = []"
    by simp
  then have m3: "matchUsers (pairHeads b2) = Some (pairHeads b2, [])"
    by (rule matchUsers_empty)
  have m2: "matchUsers b2 =
              Some (pairHeads b2, [SendMessage (hd (maleQueue b2)) PartnerFound,
                                   SendMessage (hd (femaleQueue b2)) PartnerFound])"
    using matchUsers_step [OF ne reg] m3 by simp
  have res: "startChat f b =
               Some (pairHeads b2, [SendMessage f Searching,
                                    SendMessage (hd (maleQueue b2)) PartnerFound,
                                    SendMessage (hd (femaleQueue b2)) PartnerFound])"
    using sc m2 by simp
  have hds: "{hd (maleQueue b2), hd (femaleQueue b2)} = {u, f}"
    by (auto simp: q2)
  have us3: "users (pairHeads b2) v =
      (if v = hd (femaleQueue b2)
       then map_option (\<lambda>s. s\<lparr>Partner := hd (maleQueue b2), Waiting := False\<rparr>) (users b2 v)
       else if v = hd (maleQueue b2)
       then map_option (\<lambda>s. s\<lparr>Partner := hd (femaleQueue b2), Waiting := False\<rparr>) (users b2 v)
       else users b2 v)" for v
    by (rule users_pairHeads)
  have "partnerOf (pairHeads b2) u = Some f"
    using u f(1) by (cases "Gender sf = Male") (auto simp: partnerOf_def us3 q2 us2)
  moreover have "partnerOf (pairHeads b2) f = Some u"
    using u f(1) by (cases "Gender sf = Male") (auto simp: partnerOf_def us3 q2 us2)
  moreover have "waitingOf (pairHeads b2) u = Some False"
    using u f(1) by (cases "Gender sf = Male") (auto simp: waitingOf_def us3 q2 us2)
  moreover have "waitingOf (pairHeads b2) f = Some False"
    using u f(1) by (cases "Gender sf = Male") (auto simp: waitingOf_def us3 q2 us2)
  moreover have "\<forall>v. v \<noteq> u \<and> v \<noteq> f \<longrightarrow> users (pairHeads b2) v = users b v"
    by (cases "Gender sf = Male") (auto simp: us3 q2 us2)
  moreover have "queueOf (Gender sf = Male) (pairHeads b2) = []"
    "queueOf (Gender sf \<noteq> Male) (pairHeads b2) = rest"
    by (simp_all add: queueOf_def q2)
  moreover have "set [SendMessage f Searching,
                      SendMessage (hd (maleQueue b2)) PartnerFound,
                      SendMessage (hd (femaleQueue b2)) PartnerFound]
                 = {SendMessage f Searching, SendMessage u PartnerFound,
                    SendMessage f PartnerFound}"
    by (cases "Gender sf = Male") (auto simp: q2)
  ultimately show ?thesis
    using res by blast
qed

text \<open>
  Claim C5.  Let the users \<open>ws\<close> wait in the queue of one gender, in this order, while the
  other queue is empty, and let the users \<open>fs\<close> of the other gender, none of them paired,
  press "start chat" one after the other (all users distinct, no more arrivals than waiting
  users).  Then the i-th arrival is paired with the i-th waiting user, the waiting users
  that are left stay in the queue in their order, and nobody else changes.  With one
  arrival only the first waiting user is paired; the second and third still wait, in
  order.
\<close>

theorem matching_is_fifo:
  assumes "queueOf male b = []" and "queueOf (\<not> male) b = ws"
    and "distinct (ws @ fs)" and "length fs \<le> length ws"
    and "\<forall>u \<in> set ws. users b u \<noteq> None"
    and "\<forall>f \<in> set fs. \<exists>s. users b f = Some s \<and> Gender s \<noteq> []
                            \<and> (Gender s = Male) = male \<and> Partner s = 0"
  shows "case Run (starts fs) b of
           None \<Rightarrow> False
         | Some (b', out) \<Rightarrow>
             queueOf male b' = [] \<and> queueOf (\<not> male) b' = drop (length fs) ws
           \<and> (\<forall>(f, u) \<in> set (zip fs ws).
                  partnerOf b' f = Some u \<and> partnerOf b' u = Some f
                \<and> waitingOf b' f = Some False \<and> waitingOf b' u = Some False)
           \<and> (\<forall>v. v \<notin> set fs \<union> set (take (length fs) ws) \<longrightarrow> users b' v = users b v)"
  using assms
proof (induction fs arbitrary: b ws)
  case Nil
  then show ?case by (simp add: starts_def)
next
  case (Cons f fs')
  from Cons.prems(4) obtain u ws' where ws: "ws = u # ws'" by (cases ws) auto
  from Cons.prems(6) obtain sf where
    sf: "users b f = Some sf" "Gender sf \<noteq> []" "(Gender sf = Male) = male" "Partner sf = 0"
    by auto
  from Cons.prems(5) ws obtain su where su: "users b u = Some su" by auto
  have own: "queueOf (Gender sf = Male) b = []" using Cons.prems(1) sf(3) by simp
  have other: "queueOf (Gender sf \<noteq> Male) b = u # ws'" using Cons.prems(2) sf(3) ws by simp
  from startChat_pairs_head [OF sf(1,2,4) su own other] obtain b1 out1 where
    st: "startChat f b = Some (b1, out1)"
    and p1: "partnerOf b1 u = Some f" "partnerOf b1 f = Some u"
    and w1: "waitingOf b1 u = Some False" "waitingOf b1 f = Some False"
    and fr1: "\<forall>v. v \<noteq> u \<and> v \<noteq> f \<longrightarrow> users b1 v = users b v"
    and q1: "queueOf (Gender sf = Male) b1 = []" "queueOf (Gender sf \<noteq> Male) b1 = ws'"
    by blast
  have h: "handleUpdate (CallbackQuery f ''start_chat'') b
             = Some (b1, out1 @ [AnswerCallback, DeleteMessage f])"
    using sf(1) st by (simp add: handleUpdate_def handleCallback_def getOrCreate_def)
  have d: "distinct (ws' @ fs')" "u \<notin> set ws'" "u \<notin> set fs'" "f \<notin> set ws'"
    "f \<notin> set fs'" "u \<noteq> f"
    using Cons.prems(3) ws by auto
  have i1: "queueOf male b1 = []" using q1(1) sf(3) by simp
  have i2: "queueOf (\<not> male) b1 = ws'" using q1(2) sf(3) by simp
  have i4: "length fs' \<le> length ws'" using Cons.prems(4) ws by simp
  have i5: "\<forall>u' \<in> set ws'. users b1 u' \<noteq> None"
  proof
    fix u' assume "u' \<in> set ws'"
    with d have "u' \<noteq> u \<and> u' \<noteq> f" by auto
    with fr1 have "users b1 u' = users b u'" by blast
    with Cons.prems(5) ws \<open>u' \<in> set ws'\<close> show "users b1 u' \<noteq> None" by simp
  qed
  have i6: "\<forall>f' \<in> set fs'. \<exists>s. users b1 f' = Some s \<and> Gender s \<noteq> []
                            \<and> (Gender s = Male) = male \<and> Partner s = 0"
  proof
    fix f' assume "f' \<in> set fs'"
    with d have "f' \<noteq> u \<and> f' \<noteq> f" by auto
    with fr1 have "users b1 f' = users b f'" by blast
    with Cons.prems(6) \<open>f' \<in> set fs'\<close>
    show "\<exists>s. users b1 f' = Some s \<and> Gender s \<noteq> [] \<and> (Gender s = Male) = male \<and> Partner s = 0"
      by simp
  qed
  from Cons.IH [OF i1 i2 d(1) i4 i5 i6] obtain b' out' where
    r: "Run (starts fs') b1 = Some (b', out')"
    and c1: "queueOf male b' = []" "queueOf (\<not> male) b' = drop (length fs') ws'"
    and c2: "\<forall>(f, u) \<in> set (zip fs' ws').
                  partnerOf b' f = Some u \<and> partnerOf b' u = Some f
                \<and> waitingOf b' f = Some False \<and> waitingOf b' u = Some False"
    and c3: "\<forall>v. v \<notin> set fs' \<union> set (take (length fs') ws') \<longrightarrow> users b' v = users b1 v"
    by (cases "Run (starts fs') b1") auto
  have R: "Run (starts (f # fs')) b = Some (b', (out1 @ [AnswerCallback, DeleteMessage f]) @ out')"
    using h r by (simp add: starts_def)
  have tk: "set (take (length fs') ws') \<subseteq> set ws'" by (rule set_take_subset)
  have kf: "users b' f = users b1 f" using c3 d tk by blast
  have ku: "users b' u = users b1 u" using c3 d tk by blast
  have hd: "partnerOf b' f = Some u \<and> partnerOf b' u = Some f
          \<and> waitingOf b' f = Some False \<and> waitingOf b' u = Some False"
    using p1 w1 kf ku by (simp add: partnerOf_def waitingOf_def)
  have fr: "\<forall>v. v \<notin> set (f # fs') \<union> set (take (length (f # fs')) ws) \<longrightarrow> users b' v = users b v"
  proof (intro allI impI)
    fix v assume v: "v \<notin> set (f # fs') \<union> set (take (length (f # fs')) ws)"
    with ws have "v \<noteq> f" "v \<noteq> u" "v \<notin> set fs' \<union> set (take (length fs') ws')" by auto
    with c3 fr1 show "users b' v = users b v" by simp
  qed
  show ?case
    unfolding R using c1 c2 hd fr ws by simp
qed

theorem matching_is_fifo_witness:
  "queueOf False (stateAfter threeMenWait) = []
   \<and> queueOf True (stateAfter threeMenWait) = [1, 2, 3]
   \<and> (case Run (starts [4]) (stateAfter threeMenWait) of
         None \<Rightarrow> False
       | Some (b', out) \<Rightarrow>
           queueOf True b' = [2, 3]
         \<and> partnerOf b' 4 = Some 1 \<and> partnerOf b' 1 = Some 4
         \<and> users b' 2 = Some \<lparr>Gender = Male, Partner = 0, Waiting = True\<rparr>
         \<and> users b' 3 = Some \<lparr>Gender = Male, Partner = 0, Waiting = True\<rparr>)
   \<and> (case Run (starts [4, 5, 6]) (stateAfter threeMenWait) of
         None \<Rightarrow> False
       | Some (b', out) \<Rightarrow>
           queueOf True b' = []
         \<and> partnerOf b' 4 = Some 1 \<and> partnerOf b' 5 = Some 2 \<and> partnerOf b' 6 = Some 3)"
proof -
  let ?B = "stateAfter threeMenWait"
  have q: "queueOf False ?B = []" "queueOf (\<not> False) ?B = [1, 2, 3]"
    unfolding threeMenWait_def by code_simp+
  have m: "users ?B 1 = Some \<lparr>Gender = Male, Partner = 0, Waiting = True\<rparr>"
      "users ?B 2 = Some \<lparr>Gender = Male, Partner = 0, Waiting = True\<rparr>"
      "users ?B 3 = Some \<lparr>Gender = Male, Partner = 0, Waiting = True\<rparr>"
    unfolding threeMenWait_def by code_simp+
  have f: "users ?B 4 = Some \<lparr>Gender = Female, Partner = 0, Waiting = False\<rparr>"
      "users ?B 5 = Some \<lparr>Gender = Female, Partner = 0, Waiting = False\<rparr>"
      "users ?B 6 = Some \<lparr>Gender = Female, Partner = 0, Waiting = False\<rparr>"
    unfolding threeMenWait_def by code_simp+
  have g: "Female \<noteq> []" "Female \<noteq> Male" by (simp_all add: Female_def Male_def)
  have d1: "distinct ([1, 2, 3] @ [4 :: int64])" by simp
  have d3: "distinct ([1, 2, 3] @ [4, 5, 6 :: int64])" by simp
  have w: "\<forall>u \<in> set [1, 2, 3]. users ?B u \<noteq> None" using m by simp
  have a1: "\<forall>f \<in> set [4]. \<exists>s. users ?B f = Some s \<and> Gender s \<noteq> []
                            \<and> (Gender s = Male) = False \<and> Partner s = 0"
    using f g by simp
  have a3: "\<forall>f \<in> set [4, 5, 6]. \<exists>s. users ?B f = Some s \<and> Gender s \<noteq> []
                            \<and> (Gender s = Male) = False \<and> Partner s = 0"
    using f g by simp
  from matching_is_fifo [OF q d1 _ w a1] m
  have one: "case Run (starts [4]) ?B of
         None \<Rightarrow> False
       | Some (b', out) \<Rightarrow>
           queueOf True b' = [2, 3]
         \<and> partnerOf b' 4 = Some 1 \<and> partnerOf b' 1 = Some 4
         \<and> users b' 2 = Some \<lparr>Gender = Male, Partner = 0, Waiting = True\<rparr>
         \<and> users b' 3 = Some \<lparr>Gender = Male, Partner = 0, Waiting = True\<rparr>"
    by (auto split: option.splits)
  from matching_is_fifo [OF q d3 _ w a3]
  have three: "case Run (starts [4, 5, 6]) ?B of
         None \<Rightarrow> False
       | Some (b', out) \<Rightarrow>
           queueOf True b' = []
         \<and> partnerOf b' 4 = Some 1 \<and> partnerOf b' 5 = Some 2 \<and> partnerOf b' 6 = Some 3"
    by (auto split: option.splits)
  from q one three show ?thesis by simp
qed

section \<open>The matching loop\<close>

text \<open>
  Claim C3, as amended.  \<open>matchUsers\<close> leaves the state alone when one of the queues is
  empty.  When both have a head, it takes both heads off and, without looking at the
  partner fields they had, writes each into the partner field of the other, clears the
  waiting flag of both, sends "partner found" to the male head and then to the female head,
  and goes on with the rest; no other user changes.  From a state in which every queued user
  has a state it returns, and then one of the queues is empty.
\<close>

theorem matchUsers_pairs_heads:
  "(maleQueue b = [] \<or> femaleQueue b = [] \<longrightarrow> matchUsers b = Some (b, []))
   \<and> (maleQueue b = m # ms \<and> femaleQueue b = f # fs
        \<and> users b m = Some sm \<and> users b f = Some sf \<longrightarrow>
        matchUsers b =
          map_option (\<lambda>(b', out). (b', SendMessage m PartnerFound
                                       # SendMessage f PartnerFound # out))
            (matchUsers (pairHeads b))
      \<and> maleQueue (pairHeads b) = ms \<and> femaleQueue (pairHeads b) = fs
      \<and> partnerOf (pairHeads b) m = Some f \<and> partnerOf (pairHeads b) f = Some m
      \<and> waitingOf (pairHeads b) m = Some False \<and> waitingOf (pairHeads b) f = Some False
      \<and> (\<forall>v. v \<noteq> m \<and> v \<noteq> f \<longrightarrow> users (pairHeads b) v = users b v))
   \<and> (registered b \<longrightarrow>
        (case matchUsers b of
           None \<Rightarrow> False
         | Some (b', out) \<Rightarrow> maleQueue b' = [] \<or> femaleQueue b' = []))"
proof (intro conjI impI)
  assume "maleQueue b = [] \<or> femaleQueue b = []"
  then show "matchUsers b = Some (b, [])" by (rule matchUsers_empty)
next
  assume r: "registered b"
  from matchUsers_no_panic [OF r] obtain b' out where "matchUsers b = Some (b', out)" by auto
  with matchUsers_fixpoint [OF this]
  show "case matchUsers b of None \<Rightarrow> False
        | Some (b', out) \<Rightarrow> maleQueue b' = [] \<or> femaleQueue b' = []"
    by simp
next
  assume h: "maleQueue b = m # ms \<and> femaleQueue b = f # fs
        \<and> users b m = Some sm \<and> users b f = Some sf"
  then have ne: "maleQueue b \<noteq> []" "femaleQueue b \<noteq> []"
    and reg: "users b (hd (maleQueue b)) \<noteq> None" "users b (hd (femaleQueue b)) \<noteq> None"
    by simp_all
  from matchUsers_step [OF ne reg] h
  show "matchUsers b =
          map_option (\<lambda>(b', out). (b', SendMessage m PartnerFound
                                       # SendMessage f PartnerFound # out))
            (matchUsers (pairHeads b))"
    by simp
  from h show "maleQueue (pairHeads b) = ms" "femaleQueue (pairHeads b) = fs" by simp_all
  from h show "partnerOf (pairHeads b) m = Some f" "partnerOf (pairHeads b) f = Some m"
    by (auto simp: partnerOf_def users_pairHeads)
  from h show "waitingOf (pairHeads b) m = Some False" "waitingOf (pairHeads b) f = Some False"
    by (auto simp: waitingOf_def users_pairHeads)
  from h show "\<forall>v. v \<noteq> m \<and> v \<noteq> f \<longrightarrow> users (pairHeads b) v = users b v"
    by (simp add: users_pairHeads)
qed

text \<open>
  In the initial state nothing happens; in \<open>readyPair\<close> the loop pairs users 1 and 2 and
  both queues are empty afterwards.
\<close>

theorem matchUsers_pairs_heads_witness:
  "matchUsers NewBot = Some (NewBot, [])
   \<and> maleQueue readyPair = [1] \<and> femaleQueue readyPair = [2]
   \<and> users readyPair 1 = Some \<lparr>Gender = Male, Partner = 0, Waiting = True\<rparr>
   \<and> users readyPair 2 = Some \<lparr>Gender = Female, Partner = 0, Waiting = True\<rparr>
   \<and> matchUsers readyPair =
       map_option (\<lambda>(b', out). (b', SendMessage 1 PartnerFound # SendMessage 2 PartnerFound # out))
         (matchUsers (pairHeads readyPair))
   \<and> maleQueue (pairHeads readyPair) = [] \<and> femaleQueue (pairHeads readyPair) = []
   \<and> partnerOf (pairHeads readyPair) 1 = Some 2 \<and> partnerOf (pairHeads readyPair) 2 = Some 1
   \<and> waitingOf (pairHeads readyPair) 1 = Some False
   \<and> waitingOf (pairHeads readyPair) 2 = Some False
   \<and> registered readyPair
   \<and> (case matchUsers readyPair of
         None \<Rightarrow> False
       | Some (b', out) \<Rightarrow> maleQueue b' = [] \<or> femaleQueue b' = [])"
proof -
  have e: "maleQueue NewBot = [] \<or> femaleQueue NewBot = []" by (simp add: NewBot_def)
  have q: "maleQueue readyPair = [1] \<and> femaleQueue readyPair = [2]
           \<and> users readyPair 1 = Some \<lparr>Gender = Male, Partner = 0, Waiting = True\<rparr>
           \<and> users readyPair 2 = Some \<lparr>Gender = Female, Partner = 0, Waiting = True\<rparr>"
    by (simp add: readyPair_def)
  have r: "registered readyPair"
    unfolding registered_def
    by (auto simp: readyPair_def Male_def Female_def split: if_splits)
  from matchUsers_pairs_heads [of NewBot] e
  have a: "matchUsers NewBot = Some (NewBot, [])" by blast
  from matchUsers_pairs_heads [of readyPair 1 "[]" 2 "[]"
      "\<lparr>Gender = Male, Partner = 0, Waiting = True\<rparr>"
      "\<lparr>Gender = Female, Partner = 0, Waiting = True\<rparr>"] q r
  show ?thesis using a by blast
qed

text \<open>
  The claim as stated has \<open>matchUsers\<close> check that neither head is paired already.  In
  \<open>stalePair\<close> user 1 chats with user 2 and heads \<open>maleQueue\<close>; \<open>matchUsers\<close> pairs user 1
  with user 3 all the same, and user 2 still points to user 1.  The same is seen from
  outside: before the last update of \<open>requeuedThenTwoWomen\<close> user 1 is queued with partner
  2, after it the partner of user 1 is 3.
\<close>

theorem matchUsers_overwrites_counterexample:
  "partnerOf stalePair 1 = Some 2 \<and> partnerOf stalePair 2 = Some 1
   \<and> partnerAfter (matchUsers stalePair) 1 = Some 3
   \<and> partnerAfter (matchUsers stalePair) 3 = Some 1
   \<and> partnerAfter (matchUsers stalePair) 2 = Some 1
   \<and> maleQueue (stateAfter (butlast requeuedThenTwoWomen)) = [1]
   \<and> partnerOf (stateAfter (butlast requeuedThenTwoWomen)) 1 = Some 2
   \<and> partnerOf (stateAfter requeuedThenTwoWomen) 1 = Some 3"
  by code_simp

section \<open>Starting twice\<close>

text \<open>
  Claim C2.  No identity should be in a queue twice.  \<open>startChat\<close> refuses a caller whose
  partner field is not 0 but never reads the waiting flag, so a user who presses "start
  chat" twice, or presses it once and then sends \<open>/next\<close>, is appended again: after either
  run \<open>maleQueue\<close> is \<open>[1, 1]\<close>.
\<close>

theorem double_start_duplicates_queue_entry:
  "Run startTwice NewBot \<noteq> None
   \<and> maleQueue (stateAfter startTwice) = [1, 1]
   \<and> Run nextWhileWaiting NewBot \<noteq> None
   \<and> maleQueue (stateAfter nextWhileWaiting) = [1, 1]"
  by code_simp

text \<open>
  Claim C1.  The partner fields should be symmetric.  User 1 (male) starts and sends
  \<open>/next\<close> while waiting, so user 1 is queued twice.  User 2 (female) starts and is paired
  with user 1; the second queue entry of user 1 is still there, so when user 3 (female)
  starts, user 1 is paired again.  Now the partner of user 2 is user 1, while the partner of
  user 1 is user 3.
\<close>

theorem double_start_breaks_symmetry:
  "Run requeuedThenTwoWomen NewBot \<noteq> None
   \<and> partnerOf (stateAfter requeuedThenTwoWomen) 2 = Some 1
   \<and> partnerOf (stateAfter requeuedThenTwoWomen) 1 = Some 3
   \<and> partnerOf (stateAfter requeuedThenTwoWomen) 3 = Some 1"
  by code_simp

section \<open>Between updates one queue is empty\<close>

text \<open>
  Every handler that appends to a queue runs \<open>matchUsers\<close> before it returns, so in a
  reachable state no identity is in both queues.
\<close>

lemma oneSided_removeFromQueue: "oneSided b \<Longrightarrow> oneSided (removeFromQueue u b)"
  by (auto simp: oneSided_def maleQueue_removeFromQueue_eq femaleQueue_removeFromQueue_eq)

lemma oneSided_stopChat:
  "oneSided b \<Longrightarrow> stopChat u b = Some (b', out) \<Longrightarrow> oneSided b'"
proof -
  assume o: "oneSided b" and st: "stopChat u b = Some (b', out)"
  from st obtain s where s: "users b u = Some s"
    by (auto simp: stopChat_def split: option.splits)
  show ?thesis
  proof (cases "Partner s = 0")
    case True
    with st s o show ?thesis by (simp add: stopChat_def)
  next
    case False
    with st s obtain sy where "users b (Partner s) = Some sy"
      by (auto simp: stopChat_def Let_def split: option.splits)
    from stopChat_paired [OF s False this] st
    have "b' = removeFromQueue (Partner s) (removeFromQueue u
                 (modify (Partner s) (\<lambda>s. s\<lparr>Partner := 0\<rparr>)
                    (modify u (\<lambda>s. s\<lparr>Partner := 0\<rparr>) b)))"
      by simp
    moreover have "oneSided (modify (Partner s) (\<lambda>s. s\<lparr>Partner := 0\<rparr>)
                    (modify u (\<lambda>s. s\<lparr>Partner := 0\<rparr>) b))"
      using o by (simp add: oneSided_def)
    ultimately show ?thesis by (simp add: oneSided_removeFromQueue)
  qed
qed

lemma oneSided_startChat:
  "oneSided b \<Longrightarrow> startChat u b = Some (b', out) \<Longrightarrow> oneSided b'"
  unfolding oneSided_def startChat_def Let_def
  by (auto split: option.splits if_splits dest: matchUsers_fixpoint)

lemma oneSided_handleUpdate:
  assumes "oneSided b" and "handleUpdate u b = Some (b', out)"
  shows "oneSided b'"
proof -
  have g: "oneSided (getOrCreate v b)" for v
    using assms(1) by (simp add: oneSided_def getOrCreate_def split: option.splits)
  have sg: "oneSided c'" if "oneSided c" "setGender v x c = Some (c', o')" for c c' v x o'
    using that by (auto simp: oneSided_def setGender_def split: option.splits)
  have np: "oneSided c'" if "oneSided c" "nextPartner v c = Some (c', o')" for c c' v o'
  proof -
    from that(2) obtain c1 o1 o2 where
      "stopChat v c = Some (c1, o1)" and "startChat v c1 = Some (c', o2)"
      by (auto simp: nextPartner_def split: option.splits)
    with that(1) show ?thesis
      by (blast intro: oneSided_stopChat oneSided_startChat)
  qed
  show ?thesis
  proof (cases u)
    case (CallbackQuery v d)
    with assms(2) consider
        o' where "setGender v Male (getOrCreate v b) = Some (b', o')"
      | o' where "setGender v Female (getOrCreate v b) = Some (b', o')"
      | o' where "startChat v (getOrCreate v b) = Some (b', o')"
      | "b' = getOrCreate v b"
      by (auto simp: handleUpdate_def handleCallback_def Let_def split: option.splits if_splits)
    then show ?thesis
      using g [of v] by cases (blast intro: sg oneSided_startChat)+
  next
    case Other
    with assms show ?thesis by (simp add: handleUpdate_def)
  next
    case (Message v t)
    with assms(2) consider
        "b' = getOrCreate v b"
      | "stopChat v (getOrCreate v b) = Some (b', out)"
      | "nextPartner v (getOrCreate v b) = Some (b', out)"
      by (auto simp: handleUpdate_def handleStart_def forwardMessage_def Let_def
          split: if_splits option.splits)
    then show ?thesis
      using g [of v] by cases (blast intro: oneSided_stopChat np)+
  qed
qed

lemma reachable_oneSided: "reachable b \<Longrightarrow> oneSided b"
proof (induction rule: reachable.induct)
  case init
  show ?case by (simp add: oneSided_def NewBot_def)
next
  case (step b u b' out)
  then show ?case by (blast intro: oneSided_handleUpdate)
next
  case (match b b' out)
  from matchUsers_fixpoint [OF match.hyps(2)] show ?case by (simp add: oneSided_def)
qed

end
